theory Spec2Isabelle
  imports Main
begin

section \<open>The search-query compiler of \<open>services/library_item.ts\<close>\<close>

text \<open>
  The development embeds \<open>buildQuery\<close> (with its inner functions
  \<open>escapeQueryWithParameters\<close>, \<open>serializeImplicitField\<close>,
  \<open>serializeTagExpression\<close> and \<open>serialize\<close>), the helpers \<open>getColumnName\<close> and
  \<open>handleNoCase\<close>, the default ordering of \<open>searchLibraryItems\<close> and the label merge of
  \<open>batchUpdateLibraryItems\<close>.

  Strings are \<open>char list\<close>s: a character is a UTF-16 code unit below 256, so the strings
  of the model are the JavaScript strings over Latin-1, and strings with other code
  units are outside it. The three arrays that \<open>buildQuery\<close> mutates
  (\<open>parameters\<close>, \<open>selects\<close>, \<open>orders\<close>) are the fields of a state record that every
  function takes and returns. A \<open>throw\<close> is the left injection of a sum; the state is
  dropped with it, as the exception leaves \<open>buildQuery\<close>.
\<close>

subsection \<open>JavaScript string operations\<close>

text \<open>
  \<open>String.prototype.toLowerCase\<close>. On code units below 256 it works unit by unit: the
  letters \<open>A\<close> to \<open>Z\<close> and the Latin-1 capitals \<open>U+00C0\<close> to \<open>U+00DE\<close> (without the
  multiplication sign \<open>U+00D7\<close>) move up by 32, and every other unit is kept.
\<close>

definition upper_units :: string where
  "upper_units =
     ''ABCDEFGHIJKLMNOPQRSTUVWXYZ''
     @ [CHR 0xC0, CHR 0xC1, CHR 0xC2, CHR 0xC3, CHR 0xC4, CHR 0xC5, CHR 0xC6, CHR 0xC7,
        CHR 0xC8, CHR 0xC9, CHR 0xCA, CHR 0xCB, CHR 0xCC, CHR 0xCD, CHR 0xCE, CHR 0xCF,
        CHR 0xD0, CHR 0xD1, CHR 0xD2, CHR 0xD3, CHR 0xD4, CHR 0xD5, CHR 0xD6,
        CHR 0xD8, CHR 0xD9, CHR 0xDA, CHR 0xDB, CHR 0xDC, CHR 0xDD, CHR 0xDE]"

definition lower_units :: string where
  "lower_units =
     ''abcdefghijklmnopqrstuvwxyz''
     @ [CHR 0xE0, CHR 0xE1, CHR 0xE2, CHR 0xE3, CHR 0xE4, CHR 0xE5, CHR 0xE6, CHR 0xE7,
        CHR 0xE8, CHR 0xE9, CHR 0xEA, CHR 0xEB, CHR 0xEC, CHR 0xED, CHR 0xEE, CHR 0xEF,
        CHR 0xF0, CHR 0xF1, CHR 0xF2, CHR 0xF3, CHR 0xF4, CHR 0xF5, CHR 0xF6,
        CHR 0xF8, CHR 0xF9, CHR 0xFA, CHR 0xFB, CHR 0xFC, CHR 0xFD, CHR 0xFE]"

definition toLowerChar :: "char \<Rightarrow> char" where
  "toLowerChar c =
     (case map_of (zip upper_units lower_units) c of
        Some d \<Rightarrow> d
      | None \<Rightarrow> c)"

definition toLowerCase :: "string \<Rightarrow> string" where
  "toLowerCase s = map toLowerChar s"

text \<open>\<open>s.startsWith(p)\<close>.\<close>

fun startsWith :: "string \<Rightarrow> string \<Rightarrow> bool" where
  "startsWith s [] = True"
| "startsWith [] (p # ps) = False"
| "startsWith (c # cs) (p # ps) = (c = p \<and> startsWith cs ps)"

text \<open>
  \<open>s.split(sep)\<close> for a non-empty separator string: the pieces between the occurrences
  of \<open>sep\<close>, scanned from the left. The result is never the empty array: splitting the
  empty string gives one empty piece. The accumulator holds the current piece reversed.
\<close>

fun split_from :: "string \<Rightarrow> string \<Rightarrow> string \<Rightarrow> string list" where
  "split_from sep acc [] = [rev acc]"
| "split_from sep acc (c # cs) =
     (if sep \<noteq> [] \<and> startsWith (c # cs) sep
      then rev acc # split_from sep [] (drop (length sep - 1) cs)
      else split_from sep (c # acc) cs)"

definition js_split :: "string \<Rightarrow> string \<Rightarrow> string list" where
  "js_split s sep = split_from sep [] s"

text \<open>\<open>xs.join(sep)\<close>.\<close>

fun js_join :: "string list \<Rightarrow> string \<Rightarrow> string" where
  "js_join [] sep = []"
| "js_join [x] sep = x"
| "js_join (x # y # ys) sep = x @ sep @ js_join (y # ys) sep"

text \<open>The decimal digits of a number, as a template literal prints \<open>parameters.length\<close>.\<close>

definition digit_char :: "nat \<Rightarrow> char" where
  "digit_char d = ''0123456789'' ! d"

fun show_nat :: "nat \<Rightarrow> string" where
  "show_nat n = (if n < 10 then [digit_char n] else show_nat (n div 10) @ [digit_char (n mod 10)])"

declare show_nat.simps [simp del]

text \<open>
  The values that \<open>parseInt\<close> returns: \<open>NaN\<close>, the two infinities, minus zero, and the
  doubles whose value is an integer. \<open>parseInt\<close> itself is a built-in of the runtime and
  is a field of the runtime record below; the compiler only binds what it returns.
\<close>

datatype js_number = NaN | PosInfinity | NegInfinity | NegZero | Num int

text \<open>
  Reading decimal digits back: the inverse of \<open>show_nat\<close>, used to show that different
  numbers print differently.
\<close>

definition digit_value :: "char \<Rightarrow> nat option" where
  "digit_value c = map_of (zip ''0123456789'' [0, 1, 2, 3, 4, 5, 6, 7, 8, 9]) c"

fun digits_value :: "nat \<Rightarrow> string \<Rightarrow> nat" where
  "digits_value acc [] = acc"
| "digits_value acc (c # cs) =
     (case digit_value c of
        None \<Rightarrow> acc
      | Some d \<Rightarrow> digits_value (acc * 10 + d) cs)"



text \<open>\<open>xs[i]\<close> for an array: \<open>undefined\<close> beyond the last element.\<close>

definition element_at :: "'a list \<Rightarrow> nat \<Rightarrow> 'a option" where
  "element_at xs i = (if i < length xs then Some (xs ! i) else None)"

text \<open>The apostrophe, for SQL text that ends with one.\<close>

definition sq :: string where
  "sq = [CHR 0x27]"

subsection \<open>The expression tree\<close>

text \<open>
  The value of a literal expression is a string, a number, a boolean or \<open>null\<close>;
  \<open>expression.value?.toString()\<close> is \<open>undefined\<close> (\<open>None\<close>) on \<open>null\<close>. The compiler
  reads a value only through \<open>toString()\<close>, so a number is given by the text that
  \<open>Number.prototype.toString\<close> prints for it.
\<close>

datatype literal_value = StrVal string | NumVal string | BoolVal bool | NullVal

fun value_toString :: "literal_value \<Rightarrow> string option" where
  "value_toString (StrVal s) = Some s"
| "value_toString (NumVal printed) = Some printed"
| "value_toString (BoolVal b) = Some (if b then ''true'' else ''false'')"
| "value_toString NullVal = None"

datatype expression_token =
    LiteralExpression literal_value
  | RangeExpression
  | RegexExpression
  | EmptyExpression

datatype field = ImplicitField | Field string

datatype liqe_query =
    Tag field expression_token
  | LogicalExpression string liqe_query liqe_query
  | UnaryOperator liqe_query
  | ParenthesizedExpression liqe_query
  | EmptyQuery

subsection \<open>Errors\<close>

text \<open>One constructor for each \<open>throw new Error(...)\<close> of the compiler.\<close>

datatype error =
    ExpectedLiteralExpression
  | ExpectedTagExpression
  | UnexpectedKeyword string
  | UnexpectedField string
  | InvalidStartDate
  | InvalidEndDate
  | ExpectedIds
  | ExpectedOperator
  | UnexpectedOperator

subsection \<open>Parameters, selects, orders\<close>

text \<open>
  A parameter object is the list of its keys with their values; dates are milliseconds
  since the epoch.
\<close>

datatype param_value =
    PString string
  | PStrings "string list"
  | PNumber js_number
  | PDate int

type_synonym object_literal = "(string \<times> param_value) list"

datatype SortOrder = ASCENDING | DESCENDING

datatype nulls_policy = NULLS_FIRST | NULLS_LAST

record Sort =
  sort_by :: string
  sort_order :: "SortOrder option"
  sort_nulls :: "nulls_policy option"

record Select =
  select_column :: string
  select_alias :: "string option"

record build_state =
  parameters :: "object_literal list"
  selects :: "Select list"
  orders :: "Sort list"

text \<open>
  The runtime that the compiler calls into: one field for each instant that it reads
  from the clock (\<open>new Date()\<close> and the \<open>DateTime.local()\<close> expressions), \<open>new Date(s)\<close>,
  which is \<open>None\<close> when \<open>getTime()\<close> is \<open>NaN\<close>, and \<open>parseInt(s, 10)\<close>.
\<close>

record clock =
  now :: int
  startOfDay :: int
  yesterdayStart :: int
  yesterdayEnd :: int
  startOfWeek :: int
  startOfMonth :: int
  newDate :: "string \<Rightarrow> int option"
  parseInt :: "string \<Rightarrow> js_number"

type_synonym 'a result = "error + 'a"

subsection \<open>\<open>getColumnName\<close> and \<open>handleNoCase\<close>\<close>

definition getColumnName :: "string \<Rightarrow> string result" where
  "getColumnName field_name =
     (let lowerCaseField = toLowerCase field_name in
      if lowerCaseField = ''language'' then Inr ''item_language''
      else if lowerCaseField = ''subscription'' \<or> lowerCaseField = ''rss'' then Inr ''subscription''
      else if lowerCaseField = ''site'' then Inr ''site_name''
      else if lowerCaseField = ''wordscount'' then Inr ''word_count''
      else if lowerCaseField = ''readposition'' then Inr ''reading_progress_bottom_percent''
      else if lowerCaseField = ''saved'' \<or> lowerCaseField = ''read''
           \<or> lowerCaseField = ''updated'' \<or> lowerCaseField = ''published''
        then Inr (lowerCaseField @ ''_at'')
      else if lowerCaseField = ''author'' \<or> lowerCaseField = ''title''
           \<or> lowerCaseField = ''description'' \<or> lowerCaseField = ''note''
        then Inr lowerCaseField
      else if lowerCaseField = ''highlight'' then Inr ''highlight_annotations''
      else if lowerCaseField = ''label'' then Inr ''label_names''
      else Inl (UnexpectedField field_name))"

text \<open>
  The three regular expressions \<open>/^highlight(s)?$/i\<close>, \<open>/^label(s)?$/i\<close> and
  \<open>/^subscription(s)?$/i\<close>, tried in the order of the keys of \<open>keywordRegexMap\<close>.
\<close>

definition matchingKeyword :: "string \<Rightarrow> string option" where
  "matchingKeyword v =
     (let l = toLowerCase v in
      if l = ''highlight'' \<or> l = ''highlights'' then Some ''highlight''
      else if l = ''label'' \<or> l = ''labels'' then Some ''label''
      else if l = ''subscription'' \<or> l = ''subscriptions'' then Some ''subscription''
      else None)"

definition handleNoCase :: "string \<Rightarrow> string result" where
  "handleNoCase v =
     (case matchingKeyword v of
        Some keyword \<Rightarrow>
          (case getColumnName keyword of
             Inl e \<Rightarrow> Inl e
           | Inr col \<Rightarrow>
               Inr (''(library_item.'' @ col @ '' IS NULL OR library_item.'' @ col
                    @ '' = '{}')''))
      | None \<Rightarrow> Inl (UnexpectedKeyword v))"

subsection \<open>\<open>buildQuery\<close>\<close>

text \<open>\<open>escapeQueryWithParameters\<close> pushes the parameter object and returns the query.\<close>

definition escapeQueryWithParameters ::
    "string \<Rightarrow> object_literal \<Rightarrow> build_state \<Rightarrow> string \<times> build_state" where
  "escapeQueryWithParameters query parameter s =
     (query, s\<lparr>parameters := parameters s @ [parameter]\<rparr>)"

definition serializeImplicitField ::
    "expression_token \<Rightarrow> build_state \<Rightarrow> (string option \<times> build_state) result" where
  "serializeImplicitField expression s =
     (case expression of
        LiteralExpression v \<Rightarrow>
          (case value_toString v of
             None \<Rightarrow> Inr (None, s)
           | Some val \<Rightarrow>
               if val = [] then Inr (None, s)
               else
                 (let param = ''implicit_field_'' @ show_nat (length (parameters s));
                      alias = ''rank_'' @ show_nat (length (parameters s));
                      s1 = s\<lparr>selects := selects s @
                             [\<lparr>select_column =
                                 ''ts_rank_cd(library_item.search_tsv, websearch_to_tsquery('english', :''
                                 @ param @ ''))'',
                               select_alias = Some alias\<rparr>]\<rparr>;
                      s2 = s1\<lparr>orders := orders s1 @
                             [\<lparr>sort_by = alias, sort_order = Some DESCENDING,
                               sort_nulls = None\<rparr>]\<rparr>
                  in case escapeQueryWithParameters
                       (''websearch_to_tsquery('english', :'' @ param
                        @ '') @@ library_item.search_tsv'')
                       [(param, PString val)] s2 of
                     (q, s3) \<Rightarrow> Inr (Some q, s3)))
      | _ \<Rightarrow> Inl ExpectedLiteralExpression)"

text \<open>The cases of the \<open>switch\<close> on the lower-cased field name, one definition each.\<close>

definition serialize_in ::
    "bool \<Rightarrow> string \<Rightarrow> build_state \<Rightarrow> (string option \<times> build_state) result" where
  "serialize_in useFolders val s =
     (let v = toLowerCase val in
      if v = ''all'' then Inr (None, s)
      else if v = ''archive'' then Inr (Some ''library_item.archived_at IS NOT NULL'', s)
      else if v = ''trash'' then
        Inr (Some (''library_item.deleted_at >= now() - interval '14 days'' @ sq), s)
      else if useFolders then
        (let param = ''folder_'' @ show_nat (length (parameters s)) in
         case escapeQueryWithParameters (''library_item.folder = :'' @ param)
                [(param, PString val)] s of
           (folderSql, s1) \<Rightarrow>
             Inr (Some (''(library_item.archived_at IS NULL AND '' @ folderSql @ '')''), s1))
      else Inr (Some ''library_item.archived_at IS NULL'', s))"

definition serialize_is ::
    "string \<Rightarrow> build_state \<Rightarrow> (string option \<times> build_state) result" where
  "serialize_is val s =
     (let v = toLowerCase val in
      if v = ''read'' then Inr (Some ''library_item.reading_progress_bottom_percent > 98'', s)
      else if v = ''reading'' then
        Inr (Some ''library_item.reading_progress_bottom_percent BETWEEN 2 AND 98'', s)
      else if v = ''unread'' then
        Inr (Some ''library_item.reading_progress_bottom_percent < 2'', s)
      else Inl (UnexpectedKeyword val))"

definition serialize_type ::
    "string \<Rightarrow> build_state \<Rightarrow> (string option \<times> build_state) result" where
  "serialize_type val s =
     (let param = ''type_'' @ show_nat (length (parameters s)) in
      case escapeQueryWithParameters (''LOWER(library_item.item_type) = :'' @ param)
             [(param, PString (toLowerCase val))] s of
        (q, s1) \<Rightarrow> Inr (Some q, s1))"

text \<open>
  The callback of \<open>labels.map\<close>, run on the labels from left to right: each call reads
  \<open>parameters.length\<close> after the pushes of the calls before it.
\<close>

definition serialize_label_item :: "string \<Rightarrow> build_state \<Rightarrow> string \<times> build_state" where
  "serialize_label_item label s =
     (let param = ''label_'' @ show_nat (length (parameters s));
          hasWildcard = (CHR ''*'' \<in> set label) in
      if hasWildcard then
        escapeQueryWithParameters
          (''exists (select 1 from unnest(array_cat(library_item.label_names, library_item.highlight_labels)::text[]) as label where label ILIKE :''
           @ param @ '')'')
          [(param, PString (map (\<lambda>c. if c = CHR ''*'' then CHR ''%'' else c) label))] s
      else
        escapeQueryWithParameters
          ('':'' @ param
           @ '' = ANY(lower(array_cat(library_item.label_names, library_item.highlight_labels)::text)::text[])'')
          [(param, PString label)] s)"

fun serialize_label_items :: "string list \<Rightarrow> build_state \<Rightarrow> string list \<times> build_state" where
  "serialize_label_items [] s = ([], s)"
| "serialize_label_items (label # labels) s =
     (case serialize_label_item label s of
        (q, s1) \<Rightarrow>
          (case serialize_label_items labels s1 of
             (qs, s2) \<Rightarrow> (q # qs, s2)))"

text \<open>
  The joined text holds no line terminator (the labels themselves are bound, not
  printed), so \<open>replace(/^(.*)$/, '($1)')\<close> wraps all of it in brackets.
\<close>

definition serialize_label ::
    "string \<Rightarrow> build_state \<Rightarrow> (string option \<times> build_state) result" where
  "serialize_label val s =
     (let labels = js_split (toLowerCase val) '','' in
      case serialize_label_items labels s of
        (qs, s1) \<Rightarrow> Inr (Some (''('' @ js_join qs '' OR '' @ '')''), s1))"

text \<open>\<open>Object.values(SortBy)\<close>.\<close>

definition SortBy_values :: "string list" where
  "SortBy_values = [''saved'', ''updated'', ''published'', ''read'', ''wordscount'']"

definition serialize_sort ::
    "string \<Rightarrow> build_state \<Rightarrow> (string option \<times> build_state) result" where
  "serialize_sort val s =
     (let parts = js_split (toLowerCase val) ''-'';
          sort = element_at parts 0;
          sortOrder = element_at parts 1
      in case find (\<lambda>sortBy. Some sortBy = sort) SortBy_values of
           None \<Rightarrow> Inr (None, s)
         | Some matchingSortBy \<Rightarrow>
             (case getColumnName matchingSortBy of
                Inl e \<Rightarrow> Inl e
              | Inr col \<Rightarrow>
                  (let ord = (if sortOrder = Some ''asc'' then ASCENDING else DESCENDING);
                       nulls = (if ord = ASCENDING then NULLS_FIRST else NULLS_LAST)
                   in Inr (None,
                        s\<lparr>orders := orders s @
                           [\<lparr>sort_by = ''library_item.'' @ col, sort_order = Some ord,
                             sort_nulls = Some nulls\<rparr>]\<rparr>))))"

definition serialize_has ::
    "string \<Rightarrow> build_state \<Rightarrow> (string option \<times> build_state) result" where
  "serialize_has val s =
     (case handleNoCase val of
        Inl e \<Rightarrow> Inl e
      | Inr q \<Rightarrow> Inr (Some (''NOT ('' @ q @ '')''), s))"

definition serialize_no ::
    "string \<Rightarrow> build_state \<Rightarrow> (string option \<times> build_state) result" where
  "serialize_no val s =
     (case handleNoCase val of
        Inl e \<Rightarrow> Inl e
      | Inr q \<Rightarrow> Inr (Some q, s))"

text \<open>
  A bound of a date range: \<open>if (b && b !== '*')\<close> parses it, and a date whose time is
  \<open>NaN\<close> throws; otherwise the bound stays \<open>undefined\<close>.
\<close>

definition parse_bound :: "clock \<Rightarrow> error \<Rightarrow> string option \<Rightarrow> int option result" where
  "parse_bound clk err b =
     (case b of
        None \<Rightarrow> Inr None
      | Some t \<Rightarrow>
          if t \<noteq> [] \<and> t \<noteq> ''*'' then
            (case newDate clk t of
               None \<Rightarrow> Inl err
             | Some d \<Rightarrow> Inr (Some d))
          else Inr None)"

definition date_range :: "clock \<Rightarrow> string \<Rightarrow> (int option \<times> int option) result" where
  "date_range clk val =
     (let v = toLowerCase val in
      if v = ''today'' then Inr (Some (startOfDay clk), None)
      else if v = ''yesterday'' then Inr (Some (yesterdayStart clk), Some (yesterdayEnd clk))
      else if v = ''this week'' then Inr (Some (startOfWeek clk), None)
      else if v = ''this month'' then Inr (Some (startOfMonth clk), None)
      else
        (let parts = js_split val ''..'';
             start = element_at parts 0;
             end = element_at parts 1
         in case parse_bound clk InvalidStartDate start of
              Inl e \<Rightarrow> Inl e
            | Inr startDate \<Rightarrow>
                (case parse_bound clk InvalidEndDate end of
                   Inl e \<Rightarrow> Inl e
                 | Inr endDate \<Rightarrow> Inr (startDate, endDate))))"

definition serialize_date ::
    "clock \<Rightarrow> string \<Rightarrow> string \<Rightarrow> build_state \<Rightarrow> (string option \<times> build_state) result" where
  "serialize_date clk fname val s =
     (case date_range clk val of
        Inl e \<Rightarrow> Inl e
      | Inr (startDate, endDate) \<Rightarrow>
          (let startParam = fname @ ''_start_'' @ show_nat (length (parameters s));
               endParam = fname @ ''_end_'' @ show_nat (length (parameters s))
           in case escapeQueryWithParameters
                (''library_item.'' @ fname @ ''_at BETWEEN :'' @ startParam @ '' AND :''
                 @ endParam)
                [(startParam, PDate (case startDate of None \<Rightarrow> 0 | Some d \<Rightarrow> d)),
                 (endParam, PDate (case endDate of None \<Rightarrow> now clk | Some d \<Rightarrow> d))] s of
              (q, s1) \<Rightarrow> Inr (Some q, s1)))"

definition serialize_term ::
    "string \<Rightarrow> string \<Rightarrow> build_state \<Rightarrow> (string option \<times> build_state) result" where
  "serialize_term fname val s =
     (case getColumnName fname of
        Inl e \<Rightarrow> Inl e
      | Inr columnName \<Rightarrow>
          (let param = ''term_'' @ fname @ ''_'' @ show_nat (length (parameters s)) in
           case escapeQueryWithParameters (''library_item.'' @ columnName @ '' = :'' @ param)
                  [(param, PString val)] s of
             (q, s1) \<Rightarrow> Inr (Some q, s1)))"

definition serialize_match ::
    "string \<Rightarrow> string \<Rightarrow> build_state \<Rightarrow> (string option \<times> build_state) result" where
  "serialize_match fname val s =
     (case getColumnName fname of
        Inl e \<Rightarrow> Inl e
      | Inr columnName \<Rightarrow>
          (let param = ''match_'' @ fname @ ''_'' @ show_nat (length (parameters s));
               wildcardParam =
                 ''match_'' @ fname @ ''_wildcard_'' @ show_nat (length (parameters s))
           in case escapeQueryWithParameters
                (''(websearch_to_tsquery('english', :'' @ param @ '') @@ library_item.''
                 @ columnName @ ''_tsv OR library_item.'' @ columnName @ '' ILIKE :''
                 @ wildcardParam @ '')'')
                [(param, PString val), (wildcardParam, PString (''%'' @ val @ ''%''))] s of
              (q, s1) \<Rightarrow> Inr (Some q, s1)))"

definition serialize_includes ::
    "string \<Rightarrow> build_state \<Rightarrow> (string option \<times> build_state) result" where
  "serialize_includes val s =
     (let ids = js_split val '','' in
      if length ids = 0 then Inl ExpectedIds
      else
        (let param = ''includes_'' @ show_nat (length (parameters s)) in
         case escapeQueryWithParameters (''library_item.id = ANY(:'' @ param @ '')'')
                [(param, PStrings ids)] s of
           (q, s1) \<Rightarrow> Inr (Some q, s1)))"

definition serialize_recommendedby ::
    "string \<Rightarrow> build_state \<Rightarrow> (string option \<times> build_state) result" where
  "serialize_recommendedby val s =
     (let param = ''recommendedBy_'' @ show_nat (length (parameters s)) in
      if val = ''*'' then Inr (Some (''library_item.recommender_names <> '{}'' @ sq), s)
      else
        (case escapeQueryWithParameters
                ('':'' @ param @ '' = ANY(lower(library_item.recommender_names::text)::text[])'')
                [(param, PString (toLowerCase val))] s of
           (q, s1) \<Rightarrow> Inr (Some q, s1)))"

text \<open>
  The regular expression \<open>/([<>]=?)/\<close> is not anchored: \<open>value.match\<close> finds its first
  occurrence anywhere in the value, and \<open>value.replace\<close> deletes that occurrence.
\<close>

fun match_operator :: "string \<Rightarrow> string option" where
  "match_operator [] = None"
| "match_operator (c # cs) =
     (if c = CHR ''<'' \<or> c = CHR ''>'' then
        (case cs of
           d # ds \<Rightarrow> (if d = CHR ''='' then Some [c, d] else Some [c])
         | [] \<Rightarrow> Some [c])
      else match_operator cs)"

fun replace_operator :: "string \<Rightarrow> string" where
  "replace_operator [] = []"
| "replace_operator (c # cs) =
     (if c = CHR ''<'' \<or> c = CHR ''>'' then
        (case cs of
           d # ds \<Rightarrow> (if d = CHR ''='' then ds else cs)
         | [] \<Rightarrow> cs)
      else c # replace_operator cs)"

definition serialize_range ::
    "clock \<Rightarrow> string \<Rightarrow> string \<Rightarrow> build_state \<Rightarrow> (string option \<times> build_state) result" where
  "serialize_range clk fname val s =
     (case getColumnName fname of
        Inl e \<Rightarrow> Inl e
      | Inr col \<Rightarrow>
          (case match_operator val of
             None \<Rightarrow> Inl ExpectedOperator
           | Some operator \<Rightarrow>
               (let newValue = replace_operator val;
                    param = ''range_'' @ fname @ ''_'' @ show_nat (length (parameters s))
                in case escapeQueryWithParameters
                     (''library_item.'' @ col @ '' '' @ operator @ '' :'' @ param)
                     [(param, PNumber (parseInt clk newValue))] s of
                   (q, s1) \<Rightarrow> Inr (Some q, s1))))"

text \<open>
  \<open>serializeTagExpression\<close>. A named tag whose expression is not a literal, or whose value
  is \<open>undefined\<close> or empty (\<open>!value\<close>), is ignored before the \<open>switch\<close>.
\<close>

definition serializeTagExpression ::
    "bool \<Rightarrow> clock \<Rightarrow> liqe_query \<Rightarrow> build_state \<Rightarrow> (string option \<times> build_state) result"
  where
  "serializeTagExpression useFolders clk ast s =
     (case ast of
        Tag fld expression \<Rightarrow>
          (case fld of
             ImplicitField \<Rightarrow> serializeImplicitField expression s
           | Field fname \<Rightarrow>
               (case expression of
                  LiteralExpression v \<Rightarrow>
                    (case value_toString v of
                       None \<Rightarrow> Inr (None, s)
                     | Some val \<Rightarrow>
                         if val = [] then Inr (None, s)
                         else
                           (let f = toLowerCase fname in
                            if f = ''in'' then serialize_in useFolders val s
                            else if f = ''is'' then serialize_is val s
                            else if f = ''type'' then serialize_type val s
                            else if f = ''label'' then serialize_label val s
                            else if f = ''sort'' then serialize_sort val s
                            else if f = ''has'' then serialize_has val s
                            else if f = ''saved'' \<or> f = ''read'' \<or> f = ''updated''
                                 \<or> f = ''published''
                              then serialize_date clk fname val s
                            else if f = ''subscription'' \<or> f = ''rss'' \<or> f = ''language''
                              then serialize_term fname val s
                            else if f = ''author'' \<or> f = ''title'' \<or> f = ''description''
                                 \<or> f = ''note'' \<or> f = ''site''
                              then serialize_match fname val s
                            else if f = ''includes'' then serialize_includes val s
                            else if f = ''recommendedby'' then serialize_recommendedby val s
                            else if f = ''no'' then serialize_no val s
                            else if f = ''use'' \<or> f = ''mode'' \<or> f = ''event''
                              then Inr (None, s)
                            else if f = ''readposition'' \<or> f = ''wordscount''
                              then serialize_range clk fname val s
                            else
                              serializeImplicitField
                                (LiteralExpression (StrVal (fname @ '':'' @ val))) s))
                | _ \<Rightarrow> Inr (None, s)))
      | _ \<Rightarrow> Inl ExpectedTagExpression)"

text \<open>\<open>!x\<close> for \<open>x: string | null\<close>: \<open>null\<close> and the empty string are falsy.\<close>

definition falsy :: "string option \<Rightarrow> bool" where
  "falsy x = (case x of None \<Rightarrow> True | Some t \<Rightarrow> t = [])"

text \<open>
  \<open>serialize\<close>. The operator of a logical expression is checked before either side is
  compiled; the left side is compiled first, and the right side starts from the state
  the left side leaves.
\<close>

fun serialize ::
    "bool \<Rightarrow> clock \<Rightarrow> liqe_query \<Rightarrow> build_state \<Rightarrow> (string option \<times> build_state) result"
  where
  "serialize useFolders clk (Tag fld expression) s =
     serializeTagExpression useFolders clk (Tag fld expression) s"
| "serialize useFolders clk (LogicalExpression op l r) s =
     (if op = ''AND'' \<or> op = ''OR'' then
        (case serialize useFolders clk l s of
           Inl e \<Rightarrow> Inl e
         | Inr (left, s1) \<Rightarrow>
             (case serialize useFolders clk r s1 of
                Inl e \<Rightarrow> Inl e
              | Inr (right, s2) \<Rightarrow>
                  if falsy left \<and> falsy right then Inr (None, s2)
                  else if falsy left then Inr (right, s2)
                  else if falsy right then Inr (left, s2)
                  else Inr (Some (the left @ '' '' @ op @ '' '' @ the right), s2)))
      else Inl UnexpectedOperator)"
| "serialize useFolders clk (UnaryOperator operand) s =
     (case serialize useFolders clk operand s of
        Inl e \<Rightarrow> Inl e
      | Inr (serialized, s1) \<Rightarrow>
          if falsy serialized then Inr (None, s1)
          else Inr (Some (''NOT '' @ the serialized), s1))"
| "serialize useFolders clk (ParenthesizedExpression expression) s =
     (case serialize useFolders clk expression s of
        Inl e \<Rightarrow> Inl e
      | Inr (serialized, s1) \<Rightarrow>
          if falsy serialized then Inr (None, s1)
          else Inr (Some (''('' @ the serialized @ '')''), s1))"
| "serialize useFolders clk EmptyQuery s = Inr (None, s)"

definition buildQuery ::
    "clock \<Rightarrow> liqe_query \<Rightarrow> build_state \<Rightarrow> bool \<Rightarrow> (string option \<times> build_state) result"
  where
  "buildQuery clk searchQuery s useFolders = serialize useFolders clk searchQuery s"

subsection \<open>The default order of \<open>searchLibraryItems\<close>\<close>

text \<open>
  After the query is built, \<open>searchLibraryItems\<close> pushes the order by \<open>saved_at\<close> unless
  some order is already by that column.
\<close>

definition default_order :: Sort where
  "default_order =
     \<lparr>sort_by = ''library_item.saved_at'', sort_order = Some DESCENDING,
      sort_nulls = Some NULLS_LAST\<rparr>"

definition add_default_order :: "Sort list \<Rightarrow> Sort list" where
  "add_default_order os =
     (case find (\<lambda>order. sort_by order = ''library_item.saved_at'') os of
        None \<Rightarrow> os @ [default_order]
      | Some order \<Rightarrow> os)"

text \<open>
  The part of \<open>searchLibraryItems\<close> that the compiler decides: the query is built from
  empty \<open>parameters\<close> and \<open>orders\<close> and the given \<open>selects\<close>, then the default order is
  added.
\<close>

definition search_plan ::
    "clock \<Rightarrow> bool \<Rightarrow> Select list \<Rightarrow> liqe_query \<Rightarrow> (string option \<times> build_state) result"
  where
  "search_plan clk useFolders sels searchQuery =
     (case buildQuery clk searchQuery
             \<lparr>parameters = [], selects = sels, orders = []\<rparr> useFolders of
        Inl e \<Rightarrow> Inl e
      | Inr (query, s) \<Rightarrow> Inr (query, s\<lparr>orders := add_default_order (orders s)\<rparr>))"

subsection \<open>The label merge of \<open>batchUpdateLibraryItems\<close>\<close>

record Label =
  label_id :: string
  label_name :: string

record LibraryItem =
  item_id :: string
  labelNames :: "string list option"

record EntityLabel =
  labelId :: string
  libraryItemId :: string
  entity_name :: string

text \<open>
  The filter keeps an entity label when \<open>!existingLabel\<close>: \<open>find\<close> returns the existing
  name itself, so the test is true when nothing is found, when \<open>labelNames\<close> is missing,
  and when the name found is the empty string.
\<close>

definition keep_label :: "LibraryItem \<Rightarrow> EntityLabel \<Rightarrow> bool" where
  "keep_label libraryItem entityLabel =
     (let existingLabel =
            (case labelNames libraryItem of
               None \<Rightarrow> None
             | Some names \<Rightarrow>
                 find (\<lambda>l. toLowerCase l = toLowerCase (entity_name entityLabel)) names)
      in falsy existingLabel)"

definition labelsToAdd :: "LibraryItem list \<Rightarrow> Label list \<Rightarrow> EntityLabel list" where
  "labelsToAdd libraryItems labels =
     concat (map (\<lambda>libraryItem.
       filter (keep_label libraryItem)
         (map (\<lambda>label. \<lparr>labelId = label_id label, libraryItemId = item_id libraryItem,
                        entity_name = label_name label\<rparr>) labels)) libraryItems)"

subsection \<open>Concrete inputs\<close>

text \<open>
  A runtime for the examples: its clock is stopped at the epoch, its date parser knows
  the two days of the specification's example, and its \<open>parseInt\<close> knows the numerals
  \<open>100\<close> and \<open>1005\<close>. The state is the one that \<open>batchUpdateLibraryItems\<close> starts from.
\<close>

definition clock0 :: clock where
  "clock0 =
     \<lparr>now = 0, startOfDay = 0, yesterdayStart = 0, yesterdayEnd = 0, startOfWeek = 0,
      startOfMonth = 0,
      newDate = (\<lambda>s. if s = ''2023-01-01'' then Some 1672531200000
                      else if s = ''2023-01-31'' then Some 1675123200000
                      else None),
      parseInt = (\<lambda>s. if s = ''100'' then Num 100
                       else if s = ''1005'' then Num 1005
                       else NaN)\<rparr>"

definition empty_state :: build_state where
  "empty_state = \<lparr>parameters = [], selects = [], orders = []\<rparr>"

text \<open>
  The column that \<open>getColumnName\<close> gives for each value of \<open>SortBy\<close> (lemma
  \<open>sort_columns_getColumnName\<close>).
\<close>

definition sort_columns :: "(string \<times> string) list" where
  "sort_columns =
     [(''saved'', ''saved_at''), (''updated'', ''updated_at''), (''published'', ''published_at''),
      (''read'', ''read_at''), (''wordscount'', ''word_count'')]"

text \<open>
  The trees a claim about empty tags speaks of: every leaf is a tag (implicit or named)
  with a literal whose value is the empty string or \<open>null\<close>, and every logical operator is
  \<open>AND\<close> or \<open>OR\<close>.
\<close>

fun empty_tags :: "liqe_query \<Rightarrow> bool" where
  "empty_tags (Tag fld (LiteralExpression v)) =
     (value_toString v = None \<or> value_toString v = Some [])"
| "empty_tags (Tag fld _) = False"
| "empty_tags (LogicalExpression op l r) =
     ((op = ''AND'' \<or> op = ''OR'') \<and> empty_tags l \<and> empty_tags r)"
| "empty_tags (UnaryOperator operand) = empty_tags operand"
| "empty_tags (ParenthesizedExpression expression) = empty_tags expression"
| "empty_tags EmptyQuery = False"

text \<open>The \<open>case\<close> labels of the \<open>switch\<close> in \<open>serializeTagExpression\<close>.\<close>

definition dispatch_keywords :: "string list" where
  "dispatch_keywords =
     [''in'', ''is'', ''type'', ''label'', ''sort'', ''has'', ''saved'', ''read'', ''updated'',
      ''published'', ''subscription'', ''rss'', ''language'', ''author'', ''title'',
      ''description'', ''note'', ''site'', ''includes'', ''recommendedby'', ''no'', ''use'',
      ''mode'', ''event'', ''readposition'', ''wordscount'']"

subsection \<open>Parameter names\<close>

text \<open>The keys of all parameter objects, in the order in which they were bound.\<close>

definition param_names :: "object_literal list \<Rightarrow> string list" where
  "param_names ps = concat (map (map fst) ps)"

text \<open>\<open>s.endsWith(suffix)\<close>.\<close>

definition endsWith :: "string \<Rightarrow> string \<Rightarrow> bool" where
  "endsWith s suffix = startsWith (rev s) (rev suffix)"

text \<open>
  The naming discipline of the compiler: the keys of the parameter object at position
  \<open>n\<close> are distinct and each ends with an underscore and the decimal digits of \<open>n\<close>, the
  number of objects pushed before it. \<open>extends ps ps'\<close> says that \<open>ps'\<close> is \<open>ps\<close> followed
  by objects named in that way.
\<close>

fun indexed_from :: "nat \<Rightarrow> object_literal list \<Rightarrow> bool" where
  "indexed_from n [] = True"
| "indexed_from n (obj # objs) =
     (distinct (map fst obj)
      \<and> list_all (\<lambda>k. endsWith k (CHR ''_'' # show_nat n)) (map fst obj)
      \<and> indexed_from (Suc n) objs)"

definition extends :: "object_literal list \<Rightarrow> object_literal list \<Rightarrow> bool" where
  "extends ps ps' =
     (length ps \<le> length ps' \<and> take (length ps) ps' = ps
      \<and> indexed_from (length ps) (drop (length ps) ps'))"

text \<open>
  The names of the parameter objects pushed after the first \<open>n\<close>, object by object.
  Two runs of the compiler name alike when they return the same clause and push objects
  with the same names.
\<close>

definition names_after :: "nat \<Rightarrow> object_literal list \<Rightarrow> string list list" where
  "names_after n ps = map (map fst) (drop n ps)"

definition same_run ::
    "build_state \<Rightarrow> string option \<times> build_state \<Rightarrow>
     build_state \<Rightarrow> string option \<times> build_state \<Rightarrow> bool"
  where
  "same_run s out s' out' =
     (fst out = fst out'
      \<and> names_after (length (parameters s)) (parameters (snd out))
        = names_after (length (parameters s')) (parameters (snd out')))"

section \<open>Properties\<close>

subsection \<open>Splitting\<close>

lemma split_from_not_Nil: "split_from sep acc s \<noteq> []"
  by (induction sep acc s rule: split_from.induct) auto

lemma js_split_not_Nil: "js_split s sep \<noteq> []"
  by (simp add: js_split_def split_from_not_Nil)

text \<open>
  Splitting on a one-character separator is the inverse of joining with it, and no
  piece holds the separator: the pieces are the texts between its occurrences.
\<close>

lemma js_join_Cons: "ys \<noteq> [] \<Longrightarrow> js_join (x # ys) sep = x @ sep @ js_join ys sep"
  by (cases ys) simp_all

lemma split_from_unit_join: "js_join (split_from [d] acc s) [d] = rev acc @ s"
proof (induction s arbitrary: acc)
  case Nil
  show ?case by simp
next
  case (Cons c cs)
  show ?case
  proof (cases "c = d")
    case True
    then show ?thesis
      using Cons.IH [of "[]"] by (simp add: js_join_Cons split_from_not_Nil)
  next
    case False
    then show ?thesis using Cons.IH [of "c # acc"] by simp
  qed
qed

lemma split_from_unit_pieces:
  "d \<notin> set acc \<Longrightarrow> p \<in> set (split_from [d] acc s) \<Longrightarrow> d \<notin> set p"
proof (induction s arbitrary: acc)
  case Nil
  then show ?case by simp
next
  case (Cons c cs)
  show ?case
  proof (cases "c = d")
    case True
    with Cons.prems Cons.IH [of "[]"] show ?thesis by auto
  next
    case False
    with Cons.prems Cons.IH [of "c # acc"] show ?thesis by auto
  qed
qed

lemma js_split_unit:
  "js_join (js_split s [d]) [d] = s"
  "p \<in> set (js_split s [d]) \<Longrightarrow> d \<notin> set p"
  using split_from_unit_join [of d "[]" s] split_from_unit_pieces [of d "[]" p s]
  by (simp_all add: js_split_def)

lemma js_split_comma:
  "js_join (js_split s '','') '','' = s"
  "p \<in> set (js_split s '','') \<Longrightarrow> CHR '','' \<notin> set p"
  by (rule js_split_unit(1), rule js_split_unit(2))

subsection \<open>The \<open>includes\<close> tag\<close>

text \<open>
  C1, as stated, fails: an \<open>includes\<close> tag with the empty value does not raise the
  \<open>Expected ids\<close> error; it is ignored like every named tag with an empty value, and the
  compiler returns \<open>null\<close> with the state unchanged. The same holds when the tag has no
  literal at all.
\<close>

theorem includes_empty_counterexample:
  "serialize False clock0 (Tag (Field ''includes'') (LiteralExpression (StrVal ''''))) empty_state
     \<noteq> Inl ExpectedIds
   \<and> serialize False clock0 (Tag (Field ''includes'') (LiteralExpression (StrVal ''''))) empty_state
     = Inr (None, empty_state)
   \<and> serialize False clock0 (Tag (Field ''includes'') EmptyExpression) empty_state
     = Inr (None, empty_state)"
  by (simp add: serializeTagExpression_def)

text \<open>
  C1, amended: an \<open>includes\<close> tag (the field name in any letter case) with an empty value
  compiles to \<open>null\<close> and leaves the state unchanged; with a non-empty value it splits
  the value on commas and returns the clause \<open>library_item.id = ANY(:includes_N)\<close>, where
  \<open>N\<close> is the number of parameter objects bound so far, binding the list of pieces as
  the one parameter \<open>includes_N\<close>. The pieces are the texts between the commas: joined
  with commas they give the value back, and none of them holds a comma. The
  \<open>Expected ids\<close> error is never raised.
\<close>

theorem includes_compile:
  assumes "toLowerCase fname = ''includes''" and "value_toString v = Some val"
  shows "serialize useFolders clk (Tag (Field fname) (LiteralExpression v)) s =
           (if val = [] then Inr (None, s)
            else Inr (Some (''library_item.id = ANY(:includes_''
                            @ show_nat (length (parameters s)) @ '')''),
                      s\<lparr>parameters := parameters s @
                         [[(''includes_'' @ show_nat (length (parameters s)),
                            PStrings (js_split val '',''))]]\<rparr>))
         \<and> js_join (js_split val '','') '','' = val
         \<and> (\<forall>p \<in> set (js_split val '',''). CHR '','' \<notin> set p)
         \<and> serialize useFolders clk (Tag (Field fname) (LiteralExpression v)) s
             \<noteq> Inl ExpectedIds"
proof (intro conjI ballI)
  show r: "serialize useFolders clk (Tag (Field fname) (LiteralExpression v)) s =
           (if val = [] then Inr (None, s)
            else Inr (Some (''library_item.id = ANY(:includes_''
                            @ show_nat (length (parameters s)) @ '')''),
                      s\<lparr>parameters := parameters s @
                         [[(''includes_'' @ show_nat (length (parameters s)),
                            PStrings (js_split val '',''))]]\<rparr>))"
    using assms js_split_not_Nil [of val "'',''"]
    by (simp add: serializeTagExpression_def serialize_includes_def
        escapeQueryWithParameters_def)
  show "serialize useFolders clk (Tag (Field fname) (LiteralExpression v)) s \<noteq> Inl ExpectedIds"
    unfolding r by simp
  show "js_join (js_split val '','') '','' = val"
    by (rule js_split_comma(1))
  show "CHR '','' \<notin> set p" if "p \<in> set (js_split val '','')" for p
    using that by (rule js_split_comma(2))
qed

theorem includes_compile_witness:
  "serialize False clock0 (Tag (Field ''Includes'') (LiteralExpression (StrVal ''a,b'')))
     empty_state =
     Inr (Some ''library_item.id = ANY(:includes_0)'',
          \<lparr>parameters = [[(''includes_0'', PStrings [''a'', ''b''])]], selects = [],
           orders = []\<rparr>)"
proof -
  have a: "toLowerCase ''Includes'' = ''includes''"
    by (simp add: toLowerCase_def toLowerChar_def upper_units_def lower_units_def)
  have b: "value_toString (StrVal ''a,b'') = Some ''a,b''" by simp
  have c: "js_split ''a,b'' '','' = [''a'', ''b'']" by (simp add: js_split_def)
  have d: "show_nat 0 = ''0''" by (simp add: show_nat.simps digit_char_def)
  from includes_compile [OF a b, of False clock0 empty_state, THEN conjunct1] show ?thesis
    by (simp add: c d empty_state_def)
qed

subsection \<open>The numeric range tags\<close>

lemma getColumnName_range:
  "toLowerCase fname = ''readposition'' \<Longrightarrow> getColumnName fname = Inr ''reading_progress_bottom_percent''"
  "toLowerCase fname = ''wordscount'' \<Longrightarrow> getColumnName fname = Inr ''word_count''"
  by (simp_all add: getColumnName_def)

lemma match_operator_None:
  "match_operator val = None \<longleftrightarrow> CHR ''<'' \<notin> set val \<and> CHR ''>'' \<notin> set val"
  by (induction val) (auto split: list.splits)

lemma match_operator_Some:
  "match_operator val = Some operator \<Longrightarrow>
     operator \<in> set [''<'', ''>'', ''<='', ''>='']
     \<and> (\<exists>pre post. val = pre @ operator @ post \<and> CHR ''<'' \<notin> set pre \<and> CHR ''>'' \<notin> set pre
           \<and> (length operator = 1 \<longrightarrow> \<not> startsWith post ''='')
           \<and> replace_operator val = pre @ post)"
proof (induction val)
  case Nil
  then show ?case by simp
next
  case (Cons c cs)
  show ?case
  proof (cases "c = CHR ''<'' \<or> c = CHR ''>''")
    case True
    show ?thesis
    proof (cases "startsWith cs ''=''")
      case sw: True
      then obtain ds where cs: "cs = CHR ''='' # ds" by (cases cs) auto
      from True Cons.prems have op: "operator = [c, CHR ''='']" by (simp add: cs)
      have "c # cs = [] @ operator @ ds" "replace_operator (c # cs) = [] @ ds"
        using op True by (simp_all add: cs)
      moreover have "operator \<in> set [''<'', ''>'', ''<='', ''>='']" "length operator \<noteq> 1"
        using op True by auto
      ultimately show ?thesis by (metis empty_iff list.set(1))
    next
      case sw: False
      from True Cons.prems sw have op: "operator = [c]" by (cases cs) (auto split: if_splits)
      have "c # cs = [] @ operator @ cs" "replace_operator (c # cs) = [] @ cs"
        using op True sw by (cases cs; simp)+
      moreover have "operator \<in> set [''<'', ''>'', ''<='', ''>='']"
        using op True by auto
      ultimately show ?thesis using sw by (metis empty_iff list.set(1))
    qed
  next
    case False
    with Cons.prems have "match_operator cs = Some operator" by simp
    from Cons.IH [OF this] obtain pre post where
      op: "operator \<in> set [''<'', ''>'', ''<='', ''>='']" and
      p: "cs = pre @ operator @ post" "CHR ''<'' \<notin> set pre" "CHR ''>'' \<notin> set pre"
         "length operator = 1 \<longrightarrow> \<not> startsWith post ''=''" "replace_operator cs = pre @ post"
      by blast
    from False p have "c # cs = (c # pre) @ operator @ post \<and> CHR ''<'' \<notin> set (c # pre)
        \<and> CHR ''>'' \<notin> set (c # pre) \<and> (length operator = 1 \<longrightarrow> \<not> startsWith post ''='')
        \<and> replace_operator (c # cs) = (c # pre) @ post"
      by auto
    with op show ?thesis by blast
  qed
qed

text \<open>
  C2, as stated, fails. The comparator need not lead the value: for \<open>wordscount:100>5\<close>
  the compiler raises nothing, takes the \<open>>\<close> from the middle, deletes it and
  compares with \<open>parseInt('1005')\<close>. And a value with no comparator does not always
  raise: the empty value is ignored.
\<close>

theorem range_counterexample:
  "serialize False clock0 (Tag (Field ''wordscount'') (LiteralExpression (StrVal ''100>5'')))
     empty_state =
     Inr (Some ''library_item.word_count > :range_wordscount_0'',
          \<lparr>parameters = [[(''range_wordscount_0'', PNumber (Num 1005))]], selects = [],
           orders = []\<rparr>)
   \<and> serialize False clock0 (Tag (Field ''wordscount'') (LiteralExpression (StrVal '''')))
       empty_state = Inr (None, empty_state)"
  by (simp add: serializeTagExpression_def serialize_range_def getColumnName_def
      toLowerCase_def toLowerChar_def upper_units_def lower_units_def
      escapeQueryWithParameters_def show_nat.simps digit_char_def
      empty_state_def clock0_def Let_def)

text \<open>
  C2, amended: a \<open>readposition\<close> or \<open>wordscount\<close> tag (the field name in any letter
  case) with an empty value is ignored. With a non-empty value the compiler raises
  \<open>Expected operator\<close> exactly when the value contains neither \<open><\<close> nor \<open>>\<close>.
  Otherwise the operator is the first occurrence of \<open><\<close> or \<open>>\<close> anywhere in the value,
  with the \<open>=\<close> that follows it if there is one; that occurrence is deleted, what is
  left (the text before and after the operator, joined) is given to \<open>parseInt\<close>, and the
  result is the clause \<open>library_item.<column> <operator> :range_<field>_N\<close> on the
  mapped column, with the number that \<open>parseInt\<close> returns bound as the one parameter
  \<open>range_<field>_N\<close>, where \<open>N\<close> is the number of parameter objects bound so far.
\<close>

theorem range_compile:
  assumes f: "toLowerCase fname = ''readposition'' \<or> toLowerCase fname = ''wordscount''"
    and v: "value_toString v = Some val"
  shows "(val = [] \<longrightarrow>
            serialize useFolders clk (Tag (Field fname) (LiteralExpression v)) s = Inr (None, s))
       \<and> (val \<noteq> [] \<longrightarrow>
            (serialize useFolders clk (Tag (Field fname) (LiteralExpression v)) s
               = Inl ExpectedOperator
             \<longleftrightarrow> CHR ''<'' \<notin> set val \<and> CHR ''>'' \<notin> set val)
          \<and> (\<forall>operator. match_operator val = Some operator \<longrightarrow>
               operator \<in> set [''<'', ''>'', ''<='', ''>='']
               \<and> (\<exists>pre post. val = pre @ operator @ post
                     \<and> CHR ''<'' \<notin> set pre \<and> CHR ''>'' \<notin> set pre
                     \<and> (length operator = 1 \<longrightarrow> \<not> startsWith post ''='')
                     \<and> replace_operator val = pre @ post)
               \<and> serialize useFolders clk (Tag (Field fname) (LiteralExpression v)) s =
                   Inr (Some (''library_item.''
                              @ (if toLowerCase fname = ''wordscount'' then ''word_count''
                                 else ''reading_progress_bottom_percent'')
                              @ '' '' @ operator @ '' :range_'' @ fname @ ''_''
                              @ show_nat (length (parameters s))),
                        s\<lparr>parameters := parameters s @
                           [[(''range_'' @ fname @ ''_'' @ show_nat (length (parameters s)),
                              PNumber (parseInt clk (replace_operator val)))]]\<rparr>)))"
proof (intro conjI impI)
  let ?r = "serialize useFolders clk (Tag (Field fname) (LiteralExpression v)) s"
  show "?r = Inr (None, s)" if "val = []"
    using that v by (simp add: serializeTagExpression_def)
  assume ne: "val \<noteq> []"
  have r: "?r = serialize_range clk fname val s"
    using f v ne by (auto simp: serializeTagExpression_def)
  obtain col where col: "getColumnName fname = Inr col"
    "col = (if toLowerCase fname = ''wordscount'' then ''word_count''
            else ''reading_progress_bottom_percent'')"
    using f getColumnName_range by auto
  show "?r = Inl ExpectedOperator \<longleftrightarrow> CHR ''<'' \<notin> set val \<and> CHR ''>'' \<notin> set val"
    unfolding r match_operator_None [symmetric]
    by (simp add: serialize_range_def col(1) escapeQueryWithParameters_def Let_def
        split: option.splits)
  have b: "?r = Inr (Some (''library_item.'' @ col @ '' '' @ operator @ '' :range_'' @ fname
                           @ ''_'' @ show_nat (length (parameters s))),
                     s\<lparr>parameters := parameters s @
                        [[(''range_'' @ fname @ ''_'' @ show_nat (length (parameters s)),
                           PNumber (parseInt clk (replace_operator val)))]]\<rparr>)"
    if "match_operator val = Some operator" for operator
    unfolding r using that
    by (simp add: serialize_range_def col(1) escapeQueryWithParameters_def Let_def)
  show "\<forall>operator. match_operator val = Some operator \<longrightarrow>
               operator \<in> set [''<'', ''>'', ''<='', ''>='']
               \<and> (\<exists>pre post. val = pre @ operator @ post
                     \<and> CHR ''<'' \<notin> set pre \<and> CHR ''>'' \<notin> set pre
                     \<and> (length operator = 1 \<longrightarrow> \<not> startsWith post ''='')
                     \<and> replace_operator val = pre @ post)
               \<and> ?r =
                   Inr (Some (''library_item.''
                              @ (if toLowerCase fname = ''wordscount'' then ''word_count''
                                 else ''reading_progress_bottom_percent'')
                              @ '' '' @ operator @ '' :range_'' @ fname @ ''_''
                              @ show_nat (length (parameters s))),
                        s\<lparr>parameters := parameters s @
                           [[(''range_'' @ fname @ ''_'' @ show_nat (length (parameters s)),
                              PNumber (parseInt clk (replace_operator val)))]]\<rparr>)"
    using b match_operator_Some unfolding col(2) by blast
qed

theorem range_compile_witness:
  "serialize False clock0 (Tag (Field ''wordscount'') (LiteralExpression (StrVal ''>100'')))
     empty_state =
     Inr (Some ''library_item.word_count > :range_wordscount_0'',
          \<lparr>parameters = [[(''range_wordscount_0'', PNumber (Num 100))]], selects = [],
           orders = []\<rparr>)
   \<and> serialize False clock0 (Tag (Field ''wordscount'') (LiteralExpression (StrVal ''100'')))
       empty_state = Inl ExpectedOperator"
proof -
  have f: "toLowerCase ''wordscount'' = ''readposition'' \<or> toLowerCase ''wordscount'' = ''wordscount''"
    by (simp add: toLowerCase_def toLowerChar_def upper_units_def lower_units_def)
  have l: "toLowerCase ''wordscount'' = ''wordscount''"
    by (simp add: toLowerCase_def toLowerChar_def upper_units_def lower_units_def)
  have v1: "value_toString (StrVal ''>100'') = Some ''>100''" and n1: "''>100'' \<noteq> []"
    and v2: "value_toString (StrVal ''100'') = Some ''100''" and n2: "''100'' \<noteq> []"
    by simp_all
  have m: "match_operator ''>100'' = Some ''>''" by simp
  have p: "parseInt clock0 ''100'' = Num 100" by (simp add: clock0_def)
  have d: "show_nat 0 = ''0''" by (simp add: show_nat.simps digit_char_def)
  have A: "serialize False clock0 (Tag (Field ''wordscount'') (LiteralExpression (StrVal ''>100'')))
     empty_state =
     Inr (Some ''library_item.word_count > :range_wordscount_0'',
          \<lparr>parameters = [[(''range_wordscount_0'', PNumber (Num 100))]], selects = [],
           orders = []\<rparr>)"
    using range_compile [where useFolders = False and clk = clock0 and s = empty_state,
        OF f v1, THEN conjunct2, THEN mp, OF n1, THEN conjunct2, THEN spec, THEN mp, OF m,
        THEN conjunct2, THEN conjunct2]
    by (simp add: l p d empty_state_def)
  have B: "serialize False clock0 (Tag (Field ''wordscount'') (LiteralExpression (StrVal ''100'')))
       empty_state = Inl ExpectedOperator"
    using range_compile [where useFolders = False and clk = clock0 and s = empty_state,
        OF f v2, THEN conjunct2, THEN mp, OF n2, THEN conjunct1]
    by simp
  from A B show ?thesis by (rule conjI)
qed

subsection \<open>The \<open>sort\<close> tag and the default order\<close>

lemma element_at_0: "xs \<noteq> [] \<Longrightarrow> element_at xs 0 = Some (hd xs)"
  by (cases xs) (simp_all add: element_at_def)

lemma toLowerCase_literals:
  "toLowerCase ''saved'' = ''saved''" "toLowerCase ''updated'' = ''updated''"
  "toLowerCase ''published'' = ''published''" "toLowerCase ''read'' = ''read''"
  "toLowerCase ''wordscount'' = ''wordscount''"
  by (simp_all add: toLowerCase_def toLowerChar_def upper_units_def lower_units_def)

lemma find_SortBy:
  "find (\<lambda>sortBy. sortBy = k) SortBy_values =
     (if k \<in> set SortBy_values then Some k else None)"
  by (auto simp: SortBy_values_def)

lemma serialize_sort_unknown:
  assumes "hd (js_split (toLowerCase val) ''-'') \<notin> set SortBy_values"
  shows "serialize_sort val s = Inr (None, s)"
  using assms js_split_not_Nil [of "toLowerCase val" "''-''"]
  by (simp add: serialize_sort_def Let_def element_at_0 find_SortBy)

lemma serialize_sort_known:
  assumes "(hd (js_split (toLowerCase val) ''-''), col) \<in> set sort_columns"
  shows "serialize_sort val s =
    Inr (None, s\<lparr>orders := orders s @
      [\<lparr>sort_by = ''library_item.'' @ col,
        sort_order = Some (if element_at (js_split (toLowerCase val) ''-'') 1 = Some ''asc''
                           then ASCENDING else DESCENDING),
        sort_nulls = Some (if element_at (js_split (toLowerCase val) ''-'') 1 = Some ''asc''
                           then NULLS_FIRST else NULLS_LAST)\<rparr>]\<rparr>)"
proof -
  let ?parts = "js_split (toLowerCase val) ''-''"
  have ne: "?parts \<noteq> []" by (rule js_split_not_Nil)
  have col: "hd ?parts \<in> set SortBy_values \<and> getColumnName (hd ?parts) = Inr col"
    using assms
    by (auto simp: sort_columns_def SortBy_values_def getColumnName_def toLowerCase_literals)
  then show ?thesis
    by (simp add: serialize_sort_def Let_def element_at_0 [OF ne] find_SortBy)
qed

lemma serialize_sort_tag:
  assumes "toLowerCase fname = ''sort''" and "value_toString v = Some val"
  shows "serializeTagExpression useFolders clk (Tag (Field fname) (LiteralExpression v)) s =
           serialize_sort val s"
proof (cases "val = []")
  case True
  have "serialize_sort [] s = Inr (None, s)"
    by (rule serialize_sort_unknown) (simp add: toLowerCase_def js_split_def SortBy_values_def)
  with True assms show ?thesis by (simp add: serializeTagExpression_def)
next
  case False
  with assms show ?thesis by (simp add: serializeTagExpression_def)
qed


lemma toLowerChar_cases:
  "toLowerChar c = c \<or> (c \<in> set upper_units \<and> toLowerChar c \<in> set lower_units)"
proof (cases "map_of (zip upper_units lower_units) c")
  case None
  then show ?thesis by (simp add: toLowerChar_def)
next
  case (Some d)
  then have "(c, d) \<in> set (zip upper_units lower_units)"
    by (rule map_of_SomeD)
  then have "c \<in> set upper_units" "d \<in> set lower_units"
    by (rule set_zip_leftD, rule set_zip_rightD)
  moreover have "toLowerChar c = d" using Some by (simp add: toLowerChar_def)
  ultimately show ?thesis by blast
qed

lemma toLowerChar_hyphen: "toLowerChar c = CHR ''-'' \<longleftrightarrow> c = CHR ''-''"
proof -
  have "CHR ''-'' \<notin> set lower_units" and "CHR ''-'' \<notin> set upper_units"
    by (simp_all add: upper_units_def lower_units_def)
  with toLowerChar_cases [of c] toLowerChar_cases [of "CHR ''-''"] show ?thesis by metis
qed


lemma sort_columns_getColumnName:
  "map fst sort_columns = SortBy_values"
  "(k, col) \<in> set sort_columns \<Longrightarrow> getColumnName k = Inr col"
  by (auto simp: sort_columns_def SortBy_values_def getColumnName_def toLowerCase_literals)

lemma split_from_toLowerCase:
  "split_from ''-'' (map toLowerChar acc) (map toLowerChar s) =
     map toLowerCase (split_from ''-'' acc s)"
proof (induction s arbitrary: acc)
  case Nil
  show ?case by (simp add: toLowerCase_def rev_map)
next
  case (Cons a s)
  show ?case
  proof (cases "a = CHR ''-''")
    case True
    then show ?thesis
      using Cons.IH [of "[]"] by (simp add: toLowerChar_hyphen toLowerCase_def rev_map)
  next
    case False
    then show ?thesis
      using Cons.IH [of "a # acc"] by (simp add: toLowerChar_hyphen)
  qed
qed

lemma js_split_toLowerCase:
  "js_split (toLowerCase val) ''-'' = map toLowerCase (js_split val ''-'')"
  using split_from_toLowerCase [of "[]" val] by (simp add: js_split_def toLowerCase_def)

lemma element_at_map: "element_at (map f xs) i = map_option f (element_at xs i)"
  by (simp add: element_at_def)

lemma serialize_sort_null: "\<exists>s'. serialize_sort val s = Inr (None, s')"
proof (cases "hd (js_split (toLowerCase val) ''-'') \<in> set SortBy_values")
  case True
  then obtain col where "(hd (js_split (toLowerCase val) ''-''), col) \<in> set sort_columns"
    unfolding sort_columns_getColumnName(1) [symmetric] by auto
  from serialize_sort_known [OF this] show ?thesis by blast
next
  case False
  then show ?thesis by (simp add: serialize_sort_unknown)
qed





text \<open>
  C10, as stated, fails: for \<open>sort:read-asc-x\<close> the part of the value after the first
  hyphen is \<open>asc-x\<close>, which is not \<open>asc\<close>, yet the order that is registered is ascending
  with nulls first. The destructuring \<open>[sort, sortOrder] = ...split('-')\<close> takes the
  second piece only.
\<close>

theorem sort_direction_counterexample:
  "serialize False clock0 (Tag (Field ''sort'') (LiteralExpression (StrVal ''read-asc-x'')))
     empty_state =
     Inr (None, \<lparr>parameters = [], selects = [],
       orders = [\<lparr>sort_by = ''library_item.read_at'', sort_order = Some ASCENDING,
                  sort_nulls = Some NULLS_FIRST\<rparr>]\<rparr>)"
  by (simp add: serializeTagExpression_def serialize_sort_def getColumnName_def
      SortBy_values_def js_split_def element_at_def Let_def empty_state_def
      toLowerCase_def toLowerChar_def upper_units_def lower_units_def)

text \<open>
  C10, amended: for a \<open>sort\<close> tag whose first hyphen-separated piece is, in lower case,
  a value of \<open>SortBy\<close>, the order that is registered is ascending with nulls first
  exactly when the second hyphen-separated piece of the value (the text between the
  first hyphen and the next one, or the end of the value) is \<open>asc\<close> in any letter case.
  For every other second piece, and when there is no hyphen at all, the order is
  descending with nulls last; no error is raised. The pieces are the texts between the
  hyphens: joined with hyphens they give the value back, and none of them holds a
  hyphen.
\<close>

theorem sort_direction:
  assumes "toLowerCase fname = ''sort''" and "value_toString v = Some val"
    and "(toLowerCase (hd (js_split val ''-'')), col) \<in> set sort_columns"
  shows "serialize useFolders clk (Tag (Field fname) (LiteralExpression v)) s =
           Inr (None, s\<lparr>orders := orders s @
             [\<lparr>sort_by = ''library_item.'' @ col,
               sort_order =
                 Some (if map_option toLowerCase (element_at (js_split val ''-'') 1) = Some ''asc''
                       then ASCENDING else DESCENDING),
               sort_nulls =
                 Some (if map_option toLowerCase (element_at (js_split val ''-'') 1) = Some ''asc''
                       then NULLS_FIRST else NULLS_LAST)\<rparr>]\<rparr>)
         \<and> js_join (js_split val ''-'') ''-'' = val
         \<and> (\<forall>p \<in> set (js_split val ''-''). CHR ''-'' \<notin> set p)"
proof (intro conjI ballI)
  have "hd (js_split (toLowerCase val) ''-'') = toLowerCase (hd (js_split val ''-''))"
    by (simp add: js_split_toLowerCase hd_map js_split_not_Nil)
  with assms(3) have "(hd (js_split (toLowerCase val) ''-''), col) \<in> set sort_columns"
    by simp
  from serialize_sort_known [OF this]
  show "serialize useFolders clk (Tag (Field fname) (LiteralExpression v)) s =
           Inr (None, s\<lparr>orders := orders s @
             [\<lparr>sort_by = ''library_item.'' @ col,
               sort_order =
                 Some (if map_option toLowerCase (element_at (js_split val ''-'') 1) = Some ''asc''
                       then ASCENDING else DESCENDING),
               sort_nulls =
                 Some (if map_option toLowerCase (element_at (js_split val ''-'') 1) = Some ''asc''
                       then NULLS_FIRST else NULLS_LAST)\<rparr>]\<rparr>)"
    by (simp add: serialize_sort_tag [OF assms(1,2)] js_split_toLowerCase element_at_map)
  show "js_join (js_split val ''-'') ''-'' = val"
    by (rule js_split_unit(1))
  show "CHR ''-'' \<notin> set p" if "p \<in> set (js_split val ''-'')" for p
    using that by (rule js_split_unit(2))
qed

theorem sort_direction_witness:
  "serialize False clock0 (Tag (Field ''sort'') (LiteralExpression (StrVal ''read-ASC'')))
     empty_state =
     Inr (None, \<lparr>parameters = [], selects = [],
       orders = [\<lparr>sort_by = ''library_item.read_at'', sort_order = Some ASCENDING,
                  sort_nulls = Some NULLS_FIRST\<rparr>]\<rparr>)
   \<and> serialize False clock0 (Tag (Field ''sort'') (LiteralExpression (StrVal ''read-ascending'')))
     empty_state =
     Inr (None, \<lparr>parameters = [], selects = [],
       orders = [\<lparr>sort_by = ''library_item.read_at'', sort_order = Some DESCENDING,
                  sort_nulls = Some NULLS_LAST\<rparr>]\<rparr>)
   \<and> serialize False clock0 (Tag (Field ''sort'') (LiteralExpression (StrVal ''read'')))
     empty_state =
     Inr (None, \<lparr>parameters = [], selects = [],
       orders = [\<lparr>sort_by = ''library_item.read_at'', sort_order = Some DESCENDING,
                  sort_nulls = Some NULLS_LAST\<rparr>]\<rparr>)"
proof -
  have f: "toLowerCase ''sort'' = ''sort''"
    by (simp add: toLowerCase_def toLowerChar_def upper_units_def lower_units_def)
  have v: "value_toString (StrVal x) = Some x" for x by simp
  have p1: "js_split ''read-ASC'' ''-'' = [''read'', ''ASC'']"
    and p2: "js_split ''read-ascending'' ''-'' = [''read'', ''ascending'']"
    and p3: "js_split ''read'' ''-'' = [''read'']"
    by (simp_all add: js_split_def)
  have l: "toLowerCase ''read'' = ''read''" "toLowerCase ''ASC'' = ''asc''"
    "toLowerCase ''ascending'' = ''ascending''"
    by (simp_all add: toLowerCase_def toLowerChar_def upper_units_def lower_units_def)
  have c: "(toLowerCase (hd (js_split ''read-ASC'' ''-'')), ''read_at'') \<in> set sort_columns"
    "(toLowerCase (hd (js_split ''read-ascending'' ''-'')), ''read_at'') \<in> set sort_columns"
    "(toLowerCase (hd (js_split ''read'' ''-'')), ''read_at'') \<in> set sort_columns"
    by (simp_all add: p1 p2 p3 l sort_columns_def)
  show ?thesis
    using sort_direction [OF f v c(1), of False clock0 empty_state, THEN conjunct1]
      sort_direction [OF f v c(2), of False clock0 empty_state, THEN conjunct1]
      sort_direction [OF f v c(3), of False clock0 empty_state, THEN conjunct1]
    by (simp add: p1 p2 p3 l element_at_def empty_state_def)
qed

subsection \<open>No clause is the empty string\<close>

text \<open>
  \<open>serialize\<close> tests its intermediate results with \<open>!\<close>, which is also true of the empty
  string. Every clause that a tag compiles to starts with fixed SQL text, so the test
  only ever recognises \<open>null\<close>.
\<close>

lemma handleNoCase_nonempty: "handleNoCase val = Inr q \<Longrightarrow> q \<noteq> []"
  by (auto simp: handleNoCase_def split: option.splits sum.splits)

lemma serializeImplicitField_nonempty:
  "serializeImplicitField e s = Inr (Some q, s') \<Longrightarrow> q \<noteq> []"
  by (auto simp: serializeImplicitField_def Let_def escapeQueryWithParameters_def
      split: expression_token.splits option.splits if_splits)

lemma serialize_in_nonempty: "serialize_in uf val s = Inr (Some q, s') \<Longrightarrow> q \<noteq> []"
  by (auto simp: serialize_in_def Let_def escapeQueryWithParameters_def split: if_splits)

lemma serialize_is_nonempty: "serialize_is val s = Inr (Some q, s') \<Longrightarrow> q \<noteq> []"
  by (auto simp: serialize_is_def Let_def split: if_splits)

lemma serialize_type_nonempty: "serialize_type val s = Inr (Some q, s') \<Longrightarrow> q \<noteq> []"
  by (auto simp: serialize_type_def Let_def escapeQueryWithParameters_def)

lemma serialize_label_nonempty: "serialize_label val s = Inr (Some q, s') \<Longrightarrow> q \<noteq> []"
  by (auto simp: serialize_label_def Let_def split: prod.splits)

lemma serialize_sort_nonempty: "serialize_sort val s = Inr (Some q, s') \<Longrightarrow> q \<noteq> []"
  using serialize_sort_null [of val s] by auto

lemma serialize_has_nonempty: "serialize_has val s = Inr (Some q, s') \<Longrightarrow> q \<noteq> []"
  by (auto simp: serialize_has_def split: sum.splits)

lemma serialize_no_nonempty: "serialize_no val s = Inr (Some q, s') \<Longrightarrow> q \<noteq> []"
  by (auto simp: serialize_no_def handleNoCase_nonempty split: sum.splits)

lemma serialize_date_nonempty: "serialize_date clk fname val s = Inr (Some q, s') \<Longrightarrow> q \<noteq> []"
  by (auto simp: serialize_date_def Let_def escapeQueryWithParameters_def
      split: sum.splits prod.splits)

lemma serialize_term_nonempty: "serialize_term fname val s = Inr (Some q, s') \<Longrightarrow> q \<noteq> []"
  by (auto simp: serialize_term_def Let_def escapeQueryWithParameters_def split: sum.splits)

lemma serialize_match_nonempty: "serialize_match fname val s = Inr (Some q, s') \<Longrightarrow> q \<noteq> []"
  by (auto simp: serialize_match_def Let_def escapeQueryWithParameters_def split: sum.splits)

lemma serialize_includes_nonempty: "serialize_includes val s = Inr (Some q, s') \<Longrightarrow> q \<noteq> []"
  by (auto simp: serialize_includes_def Let_def escapeQueryWithParameters_def split: if_splits)

lemma serialize_recommendedby_nonempty:
  "serialize_recommendedby val s = Inr (Some q, s') \<Longrightarrow> q \<noteq> []"
  by (auto simp: serialize_recommendedby_def Let_def escapeQueryWithParameters_def
      split: if_splits)

lemma serialize_range_nonempty: "serialize_range clk fname val s = Inr (Some q, s') \<Longrightarrow> q \<noteq> []"
  by (auto simp: serialize_range_def Let_def escapeQueryWithParameters_def
      split: sum.splits option.splits)

lemmas case_nonempty =
  serializeImplicitField_nonempty serialize_in_nonempty serialize_is_nonempty
  serialize_type_nonempty serialize_label_nonempty serialize_sort_nonempty
  serialize_has_nonempty serialize_no_nonempty serialize_date_nonempty
  serialize_term_nonempty serialize_match_nonempty serialize_includes_nonempty
  serialize_recommendedby_nonempty serialize_range_nonempty

lemma serializeTagExpression_nonempty:
  assumes "serializeTagExpression uf clk ast s = Inr (Some q, s')"
  shows "q \<noteq> []"
proof (cases ast)
  case (Tag fld e)
  show ?thesis
  proof (cases fld)
    case ImplicitField
    with Tag assms show ?thesis
      by (auto simp: serializeTagExpression_def dest: serializeImplicitField_nonempty)
  next
    case (Field fname)
    show ?thesis
    proof (cases e)
      case (LiteralExpression v)
      show ?thesis
      proof (cases "value_toString v")
        case None
        with Tag Field LiteralExpression assms show ?thesis
          by (simp add: serializeTagExpression_def)
      next
        case (Some val)
        with Tag Field LiteralExpression assms show ?thesis
          unfolding serializeTagExpression_def Let_def
          by (simp split: if_splits) (erule case_nonempty)+
      qed
    qed (use Tag Field assms in \<open>simp_all add: serializeTagExpression_def\<close>)
  qed
qed (use assms in \<open>simp_all add: serializeTagExpression_def\<close>)

lemma serialize_nonempty:
  "serialize uf clk t s = Inr (Some q, s') \<Longrightarrow> q \<noteq> []"
proof (induction t arbitrary: s s' q)
  case (Tag fld e)
  then show ?case by (auto dest: serializeTagExpression_nonempty)
next
  case (LogicalExpression op l r)
  then show ?case
    by (auto simp: falsy_def split: if_splits sum.splits prod.splits option.splits)
next
  case (UnaryOperator t)
  then show ?case by (auto split: if_splits sum.splits prod.splits)
next
  case (ParenthesizedExpression t)
  then show ?case by (auto split: if_splits sum.splits prod.splits)
next
  case EmptyQuery
  then show ?case by simp
qed

lemma falsy_serialize:
  "serialize uf clk t s = Inr (x, s') \<Longrightarrow> falsy x \<longleftrightarrow> x = None"
  using serialize_nonempty [of uf clk t s _ s'] by (cases x) (auto simp: falsy_def)


subsection \<open>Logical operators, negation and brackets\<close>

text \<open>
  C5: a logical expression whose operator is neither \<open>AND\<close> nor \<open>OR\<close> raises
  \<open>Unexpected operator\<close>. For \<open>AND\<close> and \<open>OR\<close>, when the left side compiles to \<open>left\<close>
  and the right side (from the state the left side leaves) to \<open>right\<close>: the result is
  \<open>null\<close> if both are \<open>null\<close>, the other side unchanged if exactly one is \<open>null\<close>, and
  \<open>left op right\<close> otherwise. \<open>NOT X\<close> is \<open>null\<close> when \<open>X\<close> compiles to \<open>null\<close> and
  \<open>NOT\<close> followed by the clause of \<open>X\<close> otherwise; a parenthesized expression is \<open>null\<close>
  when its inner clause is \<open>null\<close> and the inner clause in brackets otherwise.
\<close>

theorem logical_null_absorption:
  "(op \<noteq> ''AND'' \<and> op \<noteq> ''OR'' \<longrightarrow>
      serialize uf clk (LogicalExpression op l r) s = Inl UnexpectedOperator)
   \<and> (op = ''AND'' \<or> op = ''OR'' \<longrightarrow>
      (\<forall>left s1 right s2.
         serialize uf clk l s = Inr (left, s1) \<and> serialize uf clk r s1 = Inr (right, s2) \<longrightarrow>
         serialize uf clk (LogicalExpression op l r) s =
           Inr (case (left, right) of
                  (None, None) \<Rightarrow> None
                | (None, Some b) \<Rightarrow> Some b
                | (Some a, None) \<Rightarrow> Some a
                | (Some a, Some b) \<Rightarrow> Some (a @ '' '' @ op @ '' '' @ b), s2)))
   \<and> (\<forall>x s1. serialize uf clk l s = Inr (x, s1) \<longrightarrow>
         serialize uf clk (UnaryOperator l) s =
           Inr (case x of None \<Rightarrow> None | Some a \<Rightarrow> Some (''NOT '' @ a), s1)
         \<and> serialize uf clk (ParenthesizedExpression l) s =
           Inr (case x of None \<Rightarrow> None | Some a \<Rightarrow> Some (''('' @ a @ '')''), s1))"
proof (intro conjI allI impI)
  assume "op \<noteq> ''AND'' \<and> op \<noteq> ''OR''"
  then show "serialize uf clk (LogicalExpression op l r) s = Inl UnexpectedOperator"
    by simp
next
  fix left s1 right s2
  assume op: "op = ''AND'' \<or> op = ''OR''"
    and lr: "serialize uf clk l s = Inr (left, s1) \<and> serialize uf clk r s1 = Inr (right, s2)"
  from lr have "falsy left \<longleftrightarrow> left = None" "falsy right \<longleftrightarrow> right = None"
    using falsy_serialize by blast+
  with op lr show "serialize uf clk (LogicalExpression op l r) s =
           Inr (case (left, right) of
                  (None, None) \<Rightarrow> None
                | (None, Some b) \<Rightarrow> Some b
                | (Some a, None) \<Rightarrow> Some a
                | (Some a, Some b) \<Rightarrow> Some (a @ '' '' @ op @ '' '' @ b), s2)"
    by (cases left; cases right) auto
next
  fix x s1 assume x: "serialize uf clk l s = Inr (x, s1)"
  then have f: "falsy x \<longleftrightarrow> x = None" by (rule falsy_serialize)
  with x show "serialize uf clk (UnaryOperator l) s =
           Inr (case x of None \<Rightarrow> None | Some a \<Rightarrow> Some (''NOT '' @ a), s1)"
    by (cases x) auto
  from x f show "serialize uf clk (ParenthesizedExpression l) s =
           Inr (case x of None \<Rightarrow> None | Some a \<Rightarrow> Some (''('' @ a @ '')''), s1)"
    by (cases x) auto
qed

theorem logical_null_absorption_witness:
  "serialize False clock0
     (LogicalExpression ''AND'' (Tag (Field ''mode'') (LiteralExpression (StrVal ''x'')))
        (Tag (Field ''is'') (LiteralExpression (StrVal ''unread'')))) empty_state =
     Inr (Some ''library_item.reading_progress_bottom_percent < 2'', empty_state)
   \<and> serialize False clock0
     (LogicalExpression ''OR'' (Tag (Field ''is'') (LiteralExpression (StrVal ''read'')))
        (Tag (Field ''is'') (LiteralExpression (StrVal ''unread'')))) empty_state =
     Inr (Some ''library_item.reading_progress_bottom_percent > 98 OR library_item.reading_progress_bottom_percent < 2'',
          empty_state)
   \<and> serialize False clock0
     (LogicalExpression ''XOR'' (Tag (Field ''is'') (LiteralExpression (StrVal ''read'')))
        (Tag (Field ''is'') (LiteralExpression (StrVal ''unread'')))) empty_state =
     Inl UnexpectedOperator
   \<and> serialize False clock0
     (UnaryOperator (Tag (Field ''mode'') (LiteralExpression (StrVal ''x'')))) empty_state =
     Inr (None, empty_state)
   \<and> serialize False clock0
     (ParenthesizedExpression (Tag (Field ''is'') (LiteralExpression (StrVal ''unread''))))
     empty_state =
     Inr (Some ''(library_item.reading_progress_bottom_percent < 2)'', empty_state)"
proof -
  let ?mode = "Tag (Field ''mode'') (LiteralExpression (StrVal ''x''))"
  let ?read = "Tag (Field ''is'') (LiteralExpression (StrVal ''read''))"
  let ?unread = "Tag (Field ''is'') (LiteralExpression (StrVal ''unread''))"
  have m: "serialize False clock0 ?mode empty_state = Inr (None, empty_state)"
    by (simp add: serializeTagExpression_def toLowerCase_def toLowerChar_def upper_units_def lower_units_def)
  have r: "serialize False clock0 ?read empty_state =
      Inr (Some ''library_item.reading_progress_bottom_percent > 98'', empty_state)"
    by (simp add: serializeTagExpression_def serialize_is_def toLowerCase_def toLowerChar_def upper_units_def lower_units_def)
  have u: "serialize False clock0 ?unread empty_state =
      Inr (Some ''library_item.reading_progress_bottom_percent < 2'', empty_state)"
    by (simp add: serializeTagExpression_def serialize_is_def toLowerCase_def toLowerChar_def upper_units_def lower_units_def)
  note and_rule = logical_null_absorption [where uf = False and clk = clock0 and s = empty_state
      and op = "''AND''", THEN conjunct2, THEN conjunct1, THEN mp, OF disjI1, OF refl,
      THEN spec, THEN spec, THEN spec, THEN spec, THEN mp, OF conjI]
  note or_rule = logical_null_absorption [where uf = False and clk = clock0 and s = empty_state
      and op = "''OR''", THEN conjunct2, THEN conjunct1, THEN mp, OF disjI2, OF refl,
      THEN spec, THEN spec, THEN spec, THEN spec, THEN mp, OF conjI]
  have xor: "''XOR'' \<noteq> ''AND'' \<and> ''XOR'' \<noteq> ''OR''" by simp
  note xor_rule = logical_null_absorption [where uf = False and clk = clock0
      and s = empty_state and op = "''XOR''", THEN conjunct1, THEN mp, OF xor]
  note un_rule = logical_null_absorption [where uf = False and clk = clock0
      and s = empty_state and op = "''AND''" and r = ?mode, THEN conjunct2, THEN conjunct2,
      THEN spec, THEN spec, THEN mp]
  have A: "serialize False clock0 (LogicalExpression ''AND'' ?mode ?unread) empty_state =
     Inr (Some ''library_item.reading_progress_bottom_percent < 2'', empty_state)"
    using and_rule [OF m u] by simp
  have B: "serialize False clock0 (LogicalExpression ''OR'' ?read ?unread) empty_state =
     Inr (Some ''library_item.reading_progress_bottom_percent > 98 OR library_item.reading_progress_bottom_percent < 2'',
          empty_state)"
    using or_rule [OF r u] by simp
  have C: "serialize False clock0 (LogicalExpression ''XOR'' ?read ?unread) empty_state =
     Inl UnexpectedOperator"
    by (rule xor_rule)
  have D: "serialize False clock0 (UnaryOperator ?mode) empty_state = Inr (None, empty_state)"
    using un_rule [OF m, THEN conjunct1] by simp
  have E: "serialize False clock0 (ParenthesizedExpression ?unread) empty_state =
     Inr (Some ''(library_item.reading_progress_bottom_percent < 2)'', empty_state)"
    using un_rule [OF u, THEN conjunct2] by simp
  from A B C D E show ?thesis by blast
qed

subsection \<open>Trees of empty tags\<close>

lemma empty_tag_compile:
  assumes "value_toString v = None \<or> value_toString v = Some []"
  shows "serializeTagExpression uf clk (Tag fld (LiteralExpression v)) s = Inr (None, s)"
  using assms
  by (cases fld) (auto simp: serializeTagExpression_def serializeImplicitField_def)

lemma empty_tags_serialize: "empty_tags t \<Longrightarrow> serialize uf clk t s = Inr (None, s)"
proof (induction t arbitrary: s)
  case (Tag fld e)
  then show ?case by (cases e) (simp_all add: empty_tag_compile)
next
  case (LogicalExpression op l r)
  then show ?case by (auto simp: falsy_def)
next
  case (UnaryOperator t)
  then show ?case by (simp add: falsy_def)
next
  case (ParenthesizedExpression t)
  then show ?case by (simp add: falsy_def)
next
  case EmptyQuery
  then show ?case by simp
qed

text \<open>
  C9: for every expression tree built entirely from tags whose literal value is empty,
  compilation returns the \<open>null\<close> predicate and leaves the state as it was (no parameter
  is bound, no select is added, no order is added), and the final order list of
  \<open>searchLibraryItems\<close> is the default order alone: \<open>library_item.saved_at\<close>, descending,
  nulls last.
\<close>

theorem empty_tags_compile:
  assumes "empty_tags t"
  shows "serialize uf clk t s = Inr (None, s)
       \<and> search_plan clk uf sels t =
           Inr (None, \<lparr>parameters = [], selects = sels, orders = [default_order]\<rparr>)"
  using assms
  by (simp add: empty_tags_serialize search_plan_def buildQuery_def add_default_order_def)

theorem empty_tags_compile_witness:
  "search_plan clock0 True []
     (LogicalExpression ''AND'' (Tag ImplicitField (LiteralExpression (StrVal '''')))
        (UnaryOperator (ParenthesizedExpression
           (LogicalExpression ''OR'' (Tag (Field ''label'') (LiteralExpression (StrVal '''')))
              (Tag (Field ''includes'') (LiteralExpression NullVal)))))) =
     Inr (None,
          \<lparr>parameters = [], selects = [],
           orders = [\<lparr>sort_by = ''library_item.saved_at'', sort_order = Some DESCENDING,
                      sort_nulls = Some NULLS_LAST\<rparr>]\<rparr>)"
proof -
  have "empty_tags
     (LogicalExpression ''AND'' (Tag ImplicitField (LiteralExpression (StrVal '''')))
        (UnaryOperator (ParenthesizedExpression
           (LogicalExpression ''OR'' (Tag (Field ''label'') (LiteralExpression (StrVal '''')))
              (Tag (Field ''includes'') (LiteralExpression NullVal))))))"
    by simp
  from empty_tags_compile [OF this, THEN conjunct2, of clock0 True "[]"] show ?thesis
    by (simp add: default_order_def)
qed

subsection \<open>Free text and unknown field names\<close>

lemma serializeImplicitField_literal:
  assumes "value_toString v = Some val" and "val \<noteq> []"
  shows "serializeImplicitField (LiteralExpression v) s =
     Inr (Some (''websearch_to_tsquery('english', :implicit_field_''
                @ show_nat (length (parameters s)) @ '') @@ library_item.search_tsv''),
          s\<lparr>parameters := parameters s @
               [[(''implicit_field_'' @ show_nat (length (parameters s)), PString val)]],
            selects := selects s @
               [\<lparr>select_column =
                   ''ts_rank_cd(library_item.search_tsv, websearch_to_tsquery('english', :implicit_field_''
                   @ show_nat (length (parameters s)) @ ''))'',
                 select_alias = Some (''rank_'' @ show_nat (length (parameters s)))\<rparr>],
            orders := orders s @
               [\<lparr>sort_by = ''rank_'' @ show_nat (length (parameters s)),
                 sort_order = Some DESCENDING, sort_nulls = None\<rparr>]\<rparr>)"
  using assms
  by (simp add: serializeImplicitField_def Let_def escapeQueryWithParameters_def)

lemma serialize_unknown_field:
  assumes "toLowerCase fname \<notin> set dispatch_keywords"
    and "value_toString v = Some val" and "val \<noteq> []"
  shows "serializeTagExpression uf clk (Tag (Field fname) (LiteralExpression v)) s =
           serializeImplicitField (LiteralExpression (StrVal (fname @ '':'' @ val))) s"
  using assms by (simp add: serializeTagExpression_def dispatch_keywords_def)

lemma serialize_unknown_field_no_error:
  assumes "toLowerCase fname \<notin> set dispatch_keywords"
  shows "\<exists>r. serializeTagExpression uf clk (Tag (Field fname) e) s = Inr r"
proof (cases e)
  case (LiteralExpression v)
  show ?thesis
  proof (cases "value_toString v")
    case None
    with LiteralExpression show ?thesis by (simp add: serializeTagExpression_def)
  next
    case (Some val)
    show ?thesis
    proof (cases "val = []")
      case True
      with Some LiteralExpression show ?thesis by (simp add: serializeTagExpression_def)
    next
      case False
      have "value_toString (StrVal (fname @ '':'' @ val)) = Some (fname @ '':'' @ val)"
        and "fname @ '':'' @ val \<noteq> []"
        by simp_all
      from serializeImplicitField_literal [OF this]
        serialize_unknown_field [OF assms Some False] LiteralExpression
      show ?thesis by simp
    qed
  qed
qed (simp_all add: serializeTagExpression_def)

text \<open>
  C7, as stated, fails for a tag with an unknown field name and an empty value: the tag
  \<open>bogus\<close> with the literal \<open>''\<close> is ignored (\<open>null\<close>, state unchanged), whereas the
  implicit tag with the literal \<open>bogus:\<close> binds a parameter and returns a clause.
\<close>

theorem unknown_field_counterexample:
  "serialize False clock0 (Tag (Field ''bogus'') (LiteralExpression (StrVal ''''))) empty_state =
     Inr (None, empty_state)
   \<and> serialize False clock0 (Tag ImplicitField (LiteralExpression (StrVal ''bogus:'')))
       empty_state =
     Inr (Some ''websearch_to_tsquery('english', :implicit_field_0) @@ library_item.search_tsv'',
          \<lparr>parameters = [[(''implicit_field_0'', PString ''bogus:'')]],
           selects =
             [\<lparr>select_column =
                 ''ts_rank_cd(library_item.search_tsv, websearch_to_tsquery('english', :implicit_field_0))'',
               select_alias = Some ''rank_0''\<rparr>],
           orders = [\<lparr>sort_by = ''rank_0'', sort_order = Some DESCENDING, sort_nulls = None\<rparr>]\<rparr>)"
  by (simp add: serializeTagExpression_def serializeImplicitField_def Let_def
      escapeQueryWithParameters_def empty_state_def show_nat.simps digit_char_def)

text \<open>
  C7, amended: an implicit tag with a non-empty literal binds the literal as the one
  parameter \<open>implicit_field_N\<close>, adds exactly one select column \<open>ts_rank_cd(...)\<close> with
  the alias \<open>rank_N\<close>, adds a descending order by \<open>rank_N\<close> and returns the full-text
  match clause. A named tag whose lower-cased field name is none of the \<open>case\<close> labels
  never raises an error, and with a non-empty literal value it compiles exactly as
  the implicit tag whose literal is \<open><field>:<value>\<close>.
\<close>

theorem implicit_and_fallback:
  "(value_toString v = Some val \<and> val \<noteq> [] \<longrightarrow>
      serialize uf clk (Tag ImplicitField (LiteralExpression v)) s =
        Inr (Some (''websearch_to_tsquery('english', :implicit_field_''
                   @ show_nat (length (parameters s)) @ '') @@ library_item.search_tsv''),
             s\<lparr>parameters := parameters s @
                  [[(''implicit_field_'' @ show_nat (length (parameters s)), PString val)]],
               selects := selects s @
                  [\<lparr>select_column =
                      ''ts_rank_cd(library_item.search_tsv, websearch_to_tsquery('english', :implicit_field_''
                      @ show_nat (length (parameters s)) @ ''))'',
                    select_alias = Some (''rank_'' @ show_nat (length (parameters s)))\<rparr>],
               orders := orders s @
                  [\<lparr>sort_by = ''rank_'' @ show_nat (length (parameters s)),
                    sort_order = Some DESCENDING, sort_nulls = None\<rparr>]\<rparr>))
   \<and> (toLowerCase fname \<notin> set dispatch_keywords \<longrightarrow>
        (\<forall>e. \<exists>r. serialize uf clk (Tag (Field fname) e) s = Inr r)
        \<and> (value_toString v = Some val \<and> val \<noteq> [] \<longrightarrow>
             serialize uf clk (Tag (Field fname) (LiteralExpression v)) s =
               serialize uf clk
                 (Tag ImplicitField (LiteralExpression (StrVal (fname @ '':'' @ val)))) s))"
proof (intro conjI allI impI)
  assume "value_toString v = Some val \<and> val \<noteq> []"
  then show "serialize uf clk (Tag ImplicitField (LiteralExpression v)) s =
        Inr (Some (''websearch_to_tsquery('english', :implicit_field_''
                   @ show_nat (length (parameters s)) @ '') @@ library_item.search_tsv''),
             s\<lparr>parameters := parameters s @
                  [[(''implicit_field_'' @ show_nat (length (parameters s)), PString val)]],
               selects := selects s @
                  [\<lparr>select_column =
                      ''ts_rank_cd(library_item.search_tsv, websearch_to_tsquery('english', :implicit_field_''
                      @ show_nat (length (parameters s)) @ ''))'',
                    select_alias = Some (''rank_'' @ show_nat (length (parameters s)))\<rparr>],
               orders := orders s @
                  [\<lparr>sort_by = ''rank_'' @ show_nat (length (parameters s)),
                    sort_order = Some DESCENDING, sort_nulls = None\<rparr>]\<rparr>)"
    using serializeImplicitField_literal [of v val s]
    by (simp add: serializeTagExpression_def)
next
  fix e assume "toLowerCase fname \<notin> set dispatch_keywords"
  from serialize_unknown_field_no_error [OF this]
  show "\<exists>r. serialize uf clk (Tag (Field fname) e) s = Inr r" by simp
next
  assume "toLowerCase fname \<notin> set dispatch_keywords" "value_toString v = Some val \<and> val \<noteq> []"
  then show "serialize uf clk (Tag (Field fname) (LiteralExpression v)) s =
               serialize uf clk
                 (Tag ImplicitField (LiteralExpression (StrVal (fname @ '':'' @ val)))) s"
    using serialize_unknown_field [of fname v val uf clk s]
    by (simp add: serializeTagExpression_def)
qed

theorem implicit_and_fallback_witness:
  "serialize False clock0 (Tag (Field ''bogus'') (LiteralExpression (StrVal ''value'')))
     empty_state =
   serialize False clock0 (Tag ImplicitField (LiteralExpression (StrVal ''bogus:value'')))
     empty_state
   \<and> serialize False clock0 (Tag ImplicitField (LiteralExpression (StrVal ''bogus:value'')))
       empty_state =
     Inr (Some ''websearch_to_tsquery('english', :implicit_field_0) @@ library_item.search_tsv'',
          \<lparr>parameters = [[(''implicit_field_0'', PString ''bogus:value'')]],
           selects =
             [\<lparr>select_column =
                 ''ts_rank_cd(library_item.search_tsv, websearch_to_tsquery('english', :implicit_field_0))'',
               select_alias = Some ''rank_0''\<rparr>],
           orders = [\<lparr>sort_by = ''rank_0'', sort_order = Some DESCENDING, sort_nulls = None\<rparr>]\<rparr>)"
proof -
  have k: "toLowerCase ''bogus'' \<notin> set dispatch_keywords"
    by (simp add: toLowerCase_def toLowerChar_def upper_units_def lower_units_def dispatch_keywords_def)
  have v: "value_toString (StrVal ''value'') = Some ''value'' \<and> ''value'' \<noteq> []"
    and w: "value_toString (StrVal ''bogus:value'') = Some ''bogus:value'' \<and> ''bogus:value'' \<noteq> []"
    by simp_all
  have d: "show_nat 0 = ''0''" by (simp add: show_nat.simps digit_char_def)
  have A: "serialize False clock0 (Tag (Field ''bogus'') (LiteralExpression (StrVal ''value'')))
     empty_state =
   serialize False clock0 (Tag ImplicitField (LiteralExpression (StrVal ''bogus:value'')))
     empty_state"
    using implicit_and_fallback [where uf = False and clk = clock0 and s = empty_state,
        THEN conjunct2, THEN mp, OF k, THEN conjunct2, THEN mp, OF v]
    by simp
  have B: "serialize False clock0 (Tag ImplicitField (LiteralExpression (StrVal ''bogus:value'')))
       empty_state =
     Inr (Some ''websearch_to_tsquery('english', :implicit_field_0) @@ library_item.search_tsv'',
          \<lparr>parameters = [[(''implicit_field_0'', PString ''bogus:value'')]],
           selects =
             [\<lparr>select_column =
                 ''ts_rank_cd(library_item.search_tsv, websearch_to_tsquery('english', :implicit_field_0))'',
               select_alias = Some ''rank_0''\<rparr>],
           orders = [\<lparr>sort_by = ''rank_0'', sort_order = Some DESCENDING, sort_nulls = None\<rparr>]\<rparr>)"
    using implicit_and_fallback [where uf = False and clk = clock0 and s = empty_state,
        THEN conjunct1, THEN mp, OF w]
    by (simp add: d empty_state_def)
  from A B show ?thesis by (rule conjI)
qed

subsection \<open>The date tags\<close>

lemma serialize_date_tag:
  assumes "toLowerCase fname \<in> set [''saved'', ''read'', ''updated'', ''published'']"
    and "value_toString v = Some val" and "val \<noteq> []"
  shows "serializeTagExpression uf clk (Tag (Field fname) (LiteralExpression v)) s =
           serialize_date clk fname val s"
  using assms by (auto simp: serializeTagExpression_def)

lemma serialize_date_bounds:
  assumes "date_range clk val = Inr (a, b)"
  shows "serialize_date clk fname val s =
     Inr (Some (''library_item.'' @ fname @ ''_at BETWEEN :'' @ fname @ ''_start_''
                @ show_nat (length (parameters s)) @ '' AND :'' @ fname @ ''_end_''
                @ show_nat (length (parameters s))),
          s\<lparr>parameters := parameters s @
             [[(fname @ ''_start_'' @ show_nat (length (parameters s)),
                PDate (case a of None \<Rightarrow> 0 | Some d \<Rightarrow> d)),
               (fname @ ''_end_'' @ show_nat (length (parameters s)),
                PDate (case b of None \<Rightarrow> now clk | Some d \<Rightarrow> d))]]\<rparr>)"
  using assms by (simp add: serialize_date_def Let_def escapeQueryWithParameters_def)

lemma serialize_date_error:
  "date_range clk val = Inl e \<Longrightarrow> serialize_date clk fname val s = Inl e"
  by (simp add: serialize_date_def)

lemma parse_bound_open:
  "b = None \<or> b = Some [] \<or> b = Some ''*'' \<Longrightarrow> parse_bound clk err b = Inr None"
  by (auto simp: parse_bound_def)

lemma parse_bound_closed:
  "\<not> (b = None \<or> b = Some [] \<or> b = Some ''*'') \<Longrightarrow>
     parse_bound clk err b =
       (case newDate clk (the b) of None \<Rightarrow> Inl err | Some d \<Rightarrow> Inr (Some d))"
  by (cases b) (auto simp: parse_bound_def)

lemma date_range_special:
  "toLowerCase val = ''today'' \<Longrightarrow> date_range clk val = Inr (Some (startOfDay clk), None)"
  "toLowerCase val = ''yesterday'' \<Longrightarrow>
     date_range clk val = Inr (Some (yesterdayStart clk), Some (yesterdayEnd clk))"
  "toLowerCase val = ''this week'' \<Longrightarrow> date_range clk val = Inr (Some (startOfWeek clk), None)"
  "toLowerCase val = ''this month'' \<Longrightarrow> date_range clk val = Inr (Some (startOfMonth clk), None)"
  by (simp_all add: date_range_def)

lemma date_range_other:
  assumes "toLowerCase val \<notin> set [''today'', ''yesterday'', ''this week'', ''this month'']"
  shows "date_range clk val =
     (case parse_bound clk InvalidStartDate (element_at (js_split val ''..'') 0) of
        Inl e \<Rightarrow> Inl e
      | Inr a \<Rightarrow>
          (case parse_bound clk InvalidEndDate (element_at (js_split val ''..'') (Suc 0)) of
             Inl e \<Rightarrow> Inl e
           | Inr b \<Rightarrow> Inr (a, b)))"
  using assms by (simp add: date_range_def Let_def)

lemma parse_bound_eq:
  "parse_bound clk err b =
     (if b = None \<or> b = Some [] \<or> b = Some ''*'' then Inr None
      else case newDate clk (the b) of None \<Rightarrow> Inl err | Some d \<Rightarrow> Inr (Some d))"
  using parse_bound_open [of b clk err] parse_bound_closed [of b clk err] by presburger

lemma date_range_bounds:
  assumes "toLowerCase val \<notin> set [''today'', ''yesterday'', ''this week'', ''this month'']"
    and "start = element_at (js_split val ''..'') 0"
    and "end = element_at (js_split val ''..'') 1"
  shows "date_range clk val =
     (if \<not> (start = None \<or> start = Some [] \<or> start = Some ''*'')
         \<and> newDate clk (the start) = None then Inl InvalidStartDate
      else if \<not> (end = None \<or> end = Some [] \<or> end = Some ''*'')
         \<and> newDate clk (the end) = None then Inl InvalidEndDate
      else Inr (if start = None \<or> start = Some [] \<or> start = Some ''*'' then None
                else newDate clk (the start),
                if end = None \<or> end = Some [] \<or> end = Some ''*'' then None
                else newDate clk (the end)))"
proof -
  have dr: "date_range clk val =
     (case parse_bound clk InvalidStartDate start of
        Inl e \<Rightarrow> Inl e
      | Inr a \<Rightarrow>
          (case parse_bound clk InvalidEndDate end of
             Inl e \<Rightarrow> Inl e
           | Inr b \<Rightarrow> Inr (a, b)))"
    unfolding assms(2,3) One_nat_def by (rule date_range_other [OF assms(1)])
  show ?thesis
  proof (cases "start = None \<or> start = Some [] \<or> start = Some ''*''")
    case so: True
    then have ps: "parse_bound clk InvalidStartDate start = Inr None"
      by (rule parse_bound_open)
    show ?thesis
    proof (cases "end = None \<or> end = Some [] \<or> end = Some ''*''")
      case True
      then have "parse_bound clk InvalidEndDate end = Inr None" by (rule parse_bound_open)
      with so True ps show ?thesis unfolding dr by simp
    next
      case False
      then have "parse_bound clk InvalidEndDate end =
          (case newDate clk (the end) of None \<Rightarrow> Inl InvalidEndDate | Some d \<Rightarrow> Inr (Some d))"
        by (rule parse_bound_closed)
      with so False ps show ?thesis unfolding dr by (cases "newDate clk (the end)") simp_all
    qed
  next
    case sc: False
    then have ps: "parse_bound clk InvalidStartDate start =
        (case newDate clk (the start) of None \<Rightarrow> Inl InvalidStartDate | Some d \<Rightarrow> Inr (Some d))"
      by (rule parse_bound_closed)
    show ?thesis
    proof (cases "newDate clk (the start)")
      case None
      with sc ps show ?thesis unfolding dr by simp
    next
      case (Some d)
      show ?thesis
      proof (cases "end = None \<or> end = Some [] \<or> end = Some ''*''")
        case True
        then have "parse_bound clk InvalidEndDate end = Inr None" by (rule parse_bound_open)
        with sc True ps Some show ?thesis unfolding dr by simp
      next
        case False
        then have "parse_bound clk InvalidEndDate end =
            (case newDate clk (the end) of None \<Rightarrow> Inl InvalidEndDate | Some d \<Rightarrow> Inr (Some d))"
          by (rule parse_bound_closed)
        with sc False ps Some show ?thesis
          unfolding dr by (cases "newDate clk (the end)") simp_all
      qed
    qed
  qed
qed

text \<open>
  C6, as stated, fails: a date tag with the empty value is not a \<open>BETWEEN\<close> from the
  epoch to now with two bound parameters. It is ignored like every named tag with an
  empty value: the compiler returns \<open>null\<close> and binds nothing.
\<close>

theorem date_empty_counterexample:
  "serialize False clock0 (Tag (Field ''saved'') (LiteralExpression (StrVal ''''))) empty_state =
     Inr (None, empty_state)
   \<and> serialize False clock0 (Tag (Field ''saved'') (LiteralExpression (StrVal ''''))) empty_state
     \<noteq> Inr (Some ''library_item.saved_at BETWEEN :saved_start_0 AND :saved_end_0'',
            \<lparr>parameters = [[(''saved_start_0'', PDate 0), (''saved_end_0'', PDate (now clock0))]],
             selects = [], orders = []\<rparr>)"
  by (simp add: serializeTagExpression_def)

text \<open>
  C6, amended: a \<open>saved\<close>, \<open>read\<close>, \<open>updated\<close> or \<open>published\<close> tag with the empty value is
  ignored: it compiles to \<open>null\<close> and leaves the state unchanged. With a non-empty value,
  the values \<open>today\<close>, \<open>yesterday\<close>, \<open>this week\<close> and \<open>this month\<close> (in any letter case)
  give the instants read from the clock: the start of the day, week or month up to now,
  and for \<open>yesterday\<close> the start and the end of that day. Any other value is split on
  \<open>..\<close>; its first and second pieces are the bounds, a bound being open when it is
  missing, empty or \<open>*\<close>. A start that is not open and does not parse raises
  \<open>Invalid start date\<close>; otherwise an end that is not open and does not parse raises
  \<open>Invalid end date\<close>. In every other case the result is a \<open>BETWEEN\<close> clause over the
  column that \<open>getColumnName\<close> maps the field to, with one new parameter object that
  binds the two names \<open><field>_start_N\<close> and \<open><field>_end_N\<close>, an open start to the epoch
  and an open end to now; \<open>N\<close> is the number of parameter objects bound before.
\<close>

theorem date_compile:
  fixes clk :: clock and s :: build_state and fname val :: string
  defines "between \<equiv> \<lambda>a b.
     Inr (Some (''library_item.'' @ fname @ ''_at BETWEEN :'' @ fname @ ''_start_''
                @ show_nat (length (parameters s)) @ '' AND :'' @ fname @ ''_end_''
                @ show_nat (length (parameters s))),
          s\<lparr>parameters := parameters s @
             [[(fname @ ''_start_'' @ show_nat (length (parameters s)), PDate a),
               (fname @ ''_end_'' @ show_nat (length (parameters s)), PDate b)]]\<rparr>)"
    and "start \<equiv> element_at (js_split val ''..'') 0"
    and "end \<equiv> element_at (js_split val ''..'') 1"
    and "opn \<equiv> \<lambda>b. b = None \<or> b = Some [] \<or> b = Some ''*''"
  assumes f: "fname \<in> set [''saved'', ''read'', ''updated'', ''published'']"
    and v: "value_toString v = Some val"
  shows "(val = [] \<longrightarrow>
            serialize uf clk (Tag (Field fname) (LiteralExpression v)) s = Inr (None, s))
       \<and> (val \<noteq> [] \<longrightarrow>
            (toLowerCase val = ''today'' \<longrightarrow>
               serialize uf clk (Tag (Field fname) (LiteralExpression v)) s =
                 between (startOfDay clk) (now clk))
          \<and> (toLowerCase val = ''yesterday'' \<longrightarrow>
               serialize uf clk (Tag (Field fname) (LiteralExpression v)) s =
                 between (yesterdayStart clk) (yesterdayEnd clk))
          \<and> (toLowerCase val = ''this week'' \<longrightarrow>
               serialize uf clk (Tag (Field fname) (LiteralExpression v)) s =
                 between (startOfWeek clk) (now clk))
          \<and> (toLowerCase val = ''this month'' \<longrightarrow>
               serialize uf clk (Tag (Field fname) (LiteralExpression v)) s =
                 between (startOfMonth clk) (now clk))
          \<and> (toLowerCase val \<notin> set [''today'', ''yesterday'', ''this week'', ''this month''] \<longrightarrow>
               serialize uf clk (Tag (Field fname) (LiteralExpression v)) s =
                 (if \<not> opn start \<and> newDate clk (the start) = None then Inl InvalidStartDate
                  else if \<not> opn end \<and> newDate clk (the end) = None then Inl InvalidEndDate
                  else between (if opn start then 0 else the (newDate clk (the start)))
                               (if opn end then now clk else the (newDate clk (the end))))))
       \<and> getColumnName fname = Inr (fname @ ''_at'')"
proof -
  let ?r = "serialize uf clk (Tag (Field fname) (LiteralExpression v)) s"
  have fl: "toLowerCase fname = fname"
    using f by (auto simp: toLowerCase_def toLowerChar_def upper_units_def lower_units_def)
  have f': "toLowerCase fname \<in> set [''saved'', ''read'', ''updated'', ''published'']"
    unfolding fl by (rule f)
  have 0: "val = [] \<longrightarrow> ?r = Inr (None, s)"
    using v by (simp add: serializeTagExpression_def)
  have 6: "getColumnName fname = Inr (fname @ ''_at'')"
    using f unfolding getColumnName_def fl Let_def by auto
  have body: "(toLowerCase val = ''today'' \<longrightarrow> ?r = between (startOfDay clk) (now clk))
          \<and> (toLowerCase val = ''yesterday'' \<longrightarrow>
               ?r = between (yesterdayStart clk) (yesterdayEnd clk))
          \<and> (toLowerCase val = ''this week'' \<longrightarrow> ?r = between (startOfWeek clk) (now clk))
          \<and> (toLowerCase val = ''this month'' \<longrightarrow> ?r = between (startOfMonth clk) (now clk))
          \<and> (toLowerCase val \<notin> set [''today'', ''yesterday'', ''this week'', ''this month''] \<longrightarrow>
               ?r = (if \<not> opn start \<and> newDate clk (the start) = None then Inl InvalidStartDate
                  else if \<not> opn end \<and> newDate clk (the end) = None then Inl InvalidEndDate
                  else between (if opn start then 0 else the (newDate clk (the start)))
                               (if opn end then now clk else the (newDate clk (the end)))))"
    if ne: "val \<noteq> []"
  proof -
    have r: "?r = serialize_date clk fname val s"
      using serialize_date_tag [OF f' v ne] by simp
    have b: "date_range clk val = Inr (x, y) \<Longrightarrow>
        ?r = between (case x of None \<Rightarrow> 0 | Some d \<Rightarrow> d)
                     (case y of None \<Rightarrow> now clk | Some d \<Rightarrow> d)"
      for x y
      unfolding r between_def by (rule serialize_date_bounds)
    have 1: "toLowerCase val = ''today'' \<longrightarrow> ?r = between (startOfDay clk) (now clk)"
      using b [OF date_range_special(1)] by simp
    have 2: "toLowerCase val = ''yesterday'' \<longrightarrow>
        ?r = between (yesterdayStart clk) (yesterdayEnd clk)"
      using b [OF date_range_special(2)] by simp
    have 3: "toLowerCase val = ''this week'' \<longrightarrow> ?r = between (startOfWeek clk) (now clk)"
      using b [OF date_range_special(3)] by simp
    have 4: "toLowerCase val = ''this month'' \<longrightarrow> ?r = between (startOfMonth clk) (now clk)"
      using b [OF date_range_special(4)] by simp
    have 5: "?r = (if \<not> opn start \<and> newDate clk (the start) = None then Inl InvalidStartDate
                 else if \<not> opn end \<and> newDate clk (the end) = None then Inl InvalidEndDate
                 else between (if opn start then 0 else the (newDate clk (the start)))
                              (if opn end then now clk else the (newDate clk (the end))))"
      if o: "toLowerCase val \<notin> set [''today'', ''yesterday'', ''this week'', ''this month'']"
      unfolding opn_def
    proof -
      let ?os = "start = None \<or> start = Some [] \<or> start = Some ''*''"
      let ?oe = "end = None \<or> end = Some [] \<or> end = Some ''*''"
      note dr = date_range_bounds [OF o start_def [THEN meta_eq_to_obj_eq]
          end_def [THEN meta_eq_to_obj_eq], of clk]
      show "?r = (if \<not> ?os \<and> newDate clk (the start) = None then Inl InvalidStartDate
                 else if \<not> ?oe \<and> newDate clk (the end) = None then Inl InvalidEndDate
                 else between (if ?os then 0 else the (newDate clk (the start)))
                              (if ?oe then now clk else the (newDate clk (the end))))"
      proof (cases "\<not> ?os \<and> newDate clk (the start) = None")
        case True
        then have "date_range clk val = Inl InvalidStartDate" unfolding dr by (rule if_P)
        then have "?r = Inl InvalidStartDate" unfolding r by (rule serialize_date_error)
        then show ?thesis unfolding if_P [OF True] .
      next
        case s: False
        show ?thesis
        proof (cases "\<not> ?oe \<and> newDate clk (the end) = None")
          case True
          then have "date_range clk val = Inl InvalidEndDate"
            unfolding dr if_not_P [OF s] by (rule if_P)
          then have "?r = Inl InvalidEndDate" unfolding r by (rule serialize_date_error)
          then show ?thesis unfolding if_not_P [OF s] if_P [OF True] .
        next
          case e: False
          have "date_range clk val =
              Inr (if ?os then None else newDate clk (the start),
                   if ?oe then None else newDate clk (the end))"
            unfolding dr if_not_P [OF s] if_not_P [OF e] ..
          from b [OF this]
          have "?r = between (case (if ?os then None else newDate clk (the start)) of
                                None \<Rightarrow> 0 | Some d \<Rightarrow> d)
                             (case (if ?oe then None else newDate clk (the end)) of
                                None \<Rightarrow> now clk | Some d \<Rightarrow> d)" .
          moreover have "(case (if ?os then None else newDate clk (the start)) of
                                None \<Rightarrow> 0 | Some d \<Rightarrow> d) =
                         (if ?os then 0 else the (newDate clk (the start)))"
            using s by (cases "newDate clk (the start)") simp_all
          moreover have "(case (if ?oe then None else newDate clk (the end)) of
                                None \<Rightarrow> now clk | Some d \<Rightarrow> d) =
                         (if ?oe then now clk else the (newDate clk (the end)))"
            using e by (cases "newDate clk (the end)") simp_all
          ultimately show ?thesis unfolding if_not_P [OF s] if_not_P [OF e] by simp
        qed
      qed
    qed
    have 7: "toLowerCase val \<notin> set [''today'', ''yesterday'', ''this week'', ''this month''] \<longrightarrow>
        ?r = (if \<not> opn start \<and> newDate clk (the start) = None then Inl InvalidStartDate
                 else if \<not> opn end \<and> newDate clk (the end) = None then Inl InvalidEndDate
                 else between (if opn start then 0 else the (newDate clk (the start)))
                              (if opn end then now clk else the (newDate clk (the end))))"
      by (rule impI) (rule 5)
    show ?thesis
      by (rule conjI [OF 1 conjI [OF 2 conjI [OF 3 conjI [OF 4 7]]]])
  qed
  show ?thesis
    by (rule conjI [OF 0 conjI [OF impI [OF body] 6]])
qed

theorem date_compile_witness:
  "serialize False clock0
     (Tag (Field ''saved'') (LiteralExpression (StrVal ''2023-01-01..2023-01-31'')))
     empty_state =
     Inr (Some ''library_item.saved_at BETWEEN :saved_start_0 AND :saved_end_0'',
          \<lparr>parameters = [[(''saved_start_0'', PDate 1672531200000),
                           (''saved_end_0'', PDate 1675123200000)]],
           selects = [], orders = []\<rparr>)
   \<and> serialize False (clock0\<lparr>now := 1700000000000, startOfDay := 1699920000000\<rparr>)
       (Tag (Field ''saved'') (LiteralExpression (StrVal ''today''))) empty_state =
     Inr (Some ''library_item.saved_at BETWEEN :saved_start_0 AND :saved_end_0'',
          \<lparr>parameters = [[(''saved_start_0'', PDate 1699920000000),
                           (''saved_end_0'', PDate 1700000000000)]],
           selects = [], orders = []\<rparr>)
   \<and> serialize False clock0
       (Tag (Field ''saved'') (LiteralExpression (StrVal ''*..January''))) empty_state =
     Inl InvalidEndDate
   \<and> getColumnName ''saved'' = Inr ''saved_at''"
proof -
  have f: "''saved'' \<in> set [''saved'', ''read'', ''updated'', ''published'']"
    by simp
  have v: "value_toString (StrVal x) = Some x" for x by simp
  have d: "show_nat 0 = ''0''" by (simp add: show_nat.simps digit_char_def)
  have n: "''2023-01-01..2023-01-31'' \<noteq> []" "''today'' \<noteq> []" "''*..January'' \<noteq> []"
    by simp_all
  have o1: "toLowerCase ''2023-01-01..2023-01-31''
      \<notin> set [''today'', ''yesterday'', ''this week'', ''this month'']"
    and o3: "toLowerCase ''*..January''
      \<notin> set [''today'', ''yesterday'', ''this week'', ''this month'']"
    and t: "toLowerCase ''today'' = ''today''"
    by (simp_all add: toLowerCase_def toLowerChar_def upper_units_def lower_units_def)
  have p1: "js_split ''2023-01-01..2023-01-31'' ''..'' = [''2023-01-01'', ''2023-01-31'']"
    and p3: "js_split ''*..January'' ''..'' = [''*'', ''January'']"
    by (simp_all add: js_split_def)
  have A: "serialize False clock0
     (Tag (Field ''saved'') (LiteralExpression (StrVal ''2023-01-01..2023-01-31'')))
     empty_state =
     Inr (Some ''library_item.saved_at BETWEEN :saved_start_0 AND :saved_end_0'',
          \<lparr>parameters = [[(''saved_start_0'', PDate 1672531200000),
                           (''saved_end_0'', PDate 1675123200000)]],
           selects = [], orders = []\<rparr>)"
    using date_compile [where uf = False and clk = clock0 and s = empty_state, OF f v,
        of "''2023-01-01..2023-01-31''", THEN conjunct2, THEN conjunct1, THEN mp, OF n(1),
        THEN conjunct2, THEN conjunct2, THEN conjunct2, THEN conjunct2, THEN mp, OF o1]
    by (simp add: p1 element_at_def clock0_def empty_state_def d)
  have B: "serialize False (clock0\<lparr>now := 1700000000000, startOfDay := 1699920000000\<rparr>)
       (Tag (Field ''saved'') (LiteralExpression (StrVal ''today''))) empty_state =
     Inr (Some ''library_item.saved_at BETWEEN :saved_start_0 AND :saved_end_0'',
          \<lparr>parameters = [[(''saved_start_0'', PDate 1699920000000),
                           (''saved_end_0'', PDate 1700000000000)]],
           selects = [], orders = []\<rparr>)"
    using date_compile [where uf = False
        and clk = "clock0\<lparr>now := 1700000000000, startOfDay := 1699920000000\<rparr>"
        and s = empty_state, OF f v, of "''today''", THEN conjunct2, THEN conjunct1, THEN mp,
        OF n(2), THEN conjunct1, THEN mp, OF t]
    by (simp add: empty_state_def d)
  have C: "serialize False clock0
       (Tag (Field ''saved'') (LiteralExpression (StrVal ''*..January''))) empty_state =
     Inl InvalidEndDate"
    using date_compile [where uf = False and clk = clock0 and s = empty_state, OF f v,
        of "''*..January''", THEN conjunct2, THEN conjunct1, THEN mp, OF n(3),
        THEN conjunct2, THEN conjunct2, THEN conjunct2, THEN conjunct2, THEN mp, OF o3]
    by (simp add: p3 element_at_def clock0_def)
  have D: "getColumnName ''saved'' = Inr ''saved_at''"
    using date_compile [where uf = False and clk = clock0 and s = empty_state
        and fname = "''saved''", OF f v, of "''today''", THEN conjunct2, THEN conjunct2]
    by simp
  from A B C D show ?thesis by (intro conjI)
qed

subsection \<open>The label merge\<close>

lemma toLowerCase_Nil_iff: "toLowerCase l = [] \<longleftrightarrow> l = []"
  by (simp add: toLowerCase_def)

lemma find_SomeD: "find P xs = Some a \<Longrightarrow> a \<in> set xs \<and> P a"
  by (induction xs) (auto split: if_splits)

lemma find_falsy_iff:
  "falsy (find P names) \<longleftrightarrow> (\<forall>l \<in> set names. \<not> P l) \<or> find P names = Some []"
proof (cases "find P names")
  case None
  then have "\<forall>l \<in> set names. \<not> P l" unfolding find_None_iff by blast
  with None show ?thesis by (simp add: falsy_def)
next
  case (Some a)
  then have "a \<in> set names \<and> P a" by (rule find_SomeD)
  with Some show ?thesis by (auto simp: falsy_def)
qed

lemma keep_label_nonempty_name:
  assumes "entity_name entityLabel \<noteq> []"
  shows "keep_label libraryItem entityLabel \<longleftrightarrow>
     (\<forall>names. labelNames libraryItem = Some names \<longrightarrow>
        (\<forall>l \<in> set names. toLowerCase l \<noteq> toLowerCase (entity_name entityLabel)))"
proof (cases "labelNames libraryItem")
  case None
  then show ?thesis by (simp add: keep_label_def falsy_def)
next
  case (Some names)
  let ?P = "\<lambda>l. toLowerCase l = toLowerCase (entity_name entityLabel)"
  have "find ?P names \<noteq> Some []"
  proof
    assume "find ?P names = Some []"
    then have "?P []" by (blast dest: find_SomeD)
    with assms show False by (simp add: toLowerCase_def)
  qed
  with Some show ?thesis
    by (simp add: keep_label_def find_falsy_iff)
qed

text \<open>
  When every requested label has a non-empty name, an association is scheduled for an
  item and a label exactly when no existing label name of the item equals the label's
  name in lower case.
\<close>

lemma labelsToAdd_nonempty_names:
  assumes "\<forall>label \<in> set labels. label_name label \<noteq> []"
  shows "set (labelsToAdd libraryItems labels) =
     {\<lparr>labelId = label_id label, libraryItemId = item_id libraryItem,
       entity_name = label_name label\<rparr> | libraryItem label.
        libraryItem \<in> set libraryItems \<and> label \<in> set labels
        \<and> (\<forall>names. labelNames libraryItem = Some names \<longrightarrow>
              (\<forall>l \<in> set names. toLowerCase l \<noteq> toLowerCase (label_name label)))}"
  using assms by (auto simp: labelsToAdd_def keep_label_nonempty_name) blast

text \<open>
  C8 says that an association is scheduled exactly when no existing label name of the
  item equals the requested name case-insensitively. The code tests the name that
  \<open>find\<close> returns with \<open>!\<close>: for an item that already has the label name \<open>''\<close> and a
  requested label whose name is \<open>''\<close>, the name is found, it is falsy, and the
  association is scheduled again.
\<close>

theorem add_labels_empty_name:
  "labelsToAdd [\<lparr>item_id = ''item1'', labelNames = Some ['''']\<rparr>]
     [\<lparr>label_id = ''label1'', label_name = ''''\<rparr>] =
     [\<lparr>labelId = ''label1'', libraryItemId = ''item1'', entity_name = ''''\<rparr>]"
  by (simp add: labelsToAdd_def keep_label_def falsy_def toLowerCase_def)

subsection \<open>Parameter names are distinct\<close>

text \<open>
  Every name ends with an underscore and the decimal digits of \<open>parameters.length\<close> at
  the time of the push. Reading the digits back gives the number, so the digits of
  different numbers differ; no digit is an underscore, so the text after the last
  underscore of a name is its number.
\<close>

lemma digit_value_digit_char: "d < 10 \<Longrightarrow> digit_value (digit_char d) = Some d"
proof -
  assume "d < 10"
  then consider "d = 0" | "d = 1" | "d = 2" | "d = 3" | "d = 4" | "d = 5" | "d = 6"
    | "d = 7" | "d = 8" | "d = 9"
    by atomize_elim presburger
  then show ?thesis
    by cases (simp_all add: digit_char_def digit_value_def)
qed

lemma digit_value_not_underscore: "digit_value (CHR ''_'') = None"
  by (simp add: digit_value_def)

lemma digits_value_snoc:
  "(\<forall>c \<in> set xs. digit_value c \<noteq> None) \<Longrightarrow> digit_value c = Some d \<Longrightarrow>
     digits_value acc (xs @ [c]) = digits_value acc xs * 10 + d"
  by (induction xs arbitrary: acc) auto

lemma show_nat_digits: "c \<in> set (show_nat n) \<Longrightarrow> digit_value c \<noteq> None"
proof (induction n arbitrary: c rule: show_nat.induct)
  case (1 n)
  show ?case
  proof (cases "n < 10")
    case True
    with "1.prems" digit_value_digit_char [of n] show ?thesis
      by (simp add: show_nat.simps [of n])
  next
    case False
    with "1.prems" "1.IH" digit_value_digit_char [of "n mod 10"] show ?thesis
      by (auto simp: show_nat.simps [of n])
  qed
qed

lemma digits_value_show_nat: "digits_value 0 (show_nat n) = n"
proof (induction n rule: show_nat.induct)
  case (1 n)
  show ?case
  proof (cases "n < 10")
    case True
    with digit_value_digit_char [of n] show ?thesis
      by (simp add: show_nat.simps [of n])
  next
    case False
    have "digits_value 0 (show_nat (n div 10) @ [digit_char (n mod 10)]) =
        digits_value 0 (show_nat (n div 10)) * 10 + n mod 10"
      by (rule digits_value_snoc) (auto dest: show_nat_digits simp: digit_value_digit_char)
    with False "1.IH" show ?thesis
      by (simp add: show_nat.simps [of n])
  qed
qed

lemma show_nat_inject: "show_nat m = show_nat n \<Longrightarrow> m = n"
  by (metis digits_value_show_nat)

lemma show_nat_no_underscore: "CHR ''_'' \<notin> set (show_nat n)"
  using show_nat_digits [of "CHR ''_''" n] digit_value_not_underscore by blast

lemma startsWith_iff: "startsWith s p \<longleftrightarrow> (\<exists>r. s = p @ r)"
  by (induction s p rule: startsWith.induct) auto

lemma endsWith_iff: "endsWith s suffix \<longleftrightarrow> (\<exists>p. s = p @ suffix)"
proof
  assume "endsWith s suffix"
  then obtain r where "rev s = rev suffix @ r"
    unfolding endsWith_def startsWith_iff by blast
  then have "s = rev r @ suffix" by (simp add: rev_swap)
  then show "\<exists>p. s = p @ suffix" by blast
next
  assume "\<exists>p. s = p @ suffix"
  then show "endsWith s suffix"
    unfolding endsWith_def startsWith_iff by auto
qed

lemma endsWith_refl: "endsWith s s"
  unfolding endsWith_iff by (rule exI [of _ "[]"]) simp

lemma endsWith_Cons: "endsWith s suffix \<Longrightarrow> endsWith (c # s) suffix"
  unfolding endsWith_iff by (metis append_Cons)

lemma endsWith_append: "endsWith s suffix \<Longrightarrow> endsWith (p @ s) suffix"
  unfolding endsWith_iff by (metis append_assoc)

lemma index_suffix_inject:
  assumes "endsWith k (CHR ''_'' # show_nat i)" and "endsWith k (CHR ''_'' # show_nat j)"
  shows "i = j"
proof -
  from assms obtain p q where p: "k = p @ CHR ''_'' # show_nat i"
    and q: "k = q @ CHR ''_'' # show_nat j"
    unfolding endsWith_iff by blast
  have tw: "takeWhile (\<lambda>c. c \<noteq> CHR ''_'') (rev (x @ CHR ''_'' # show_nat n)) = rev (show_nat n)"
    for x n
  proof -
    have "takeWhile (\<lambda>c. c \<noteq> CHR ''_'') (rev (show_nat n) @ CHR ''_'' # rev x) =
        rev (show_nat n) @ takeWhile (\<lambda>c. c \<noteq> CHR ''_'') (CHR ''_'' # rev x)"
      by (rule takeWhile_append2) (use show_nat_no_underscore [of n] in auto)
    then show ?thesis by simp
  qed
  from p q have "rev (show_nat i) = rev (show_nat j)"
    using tw [of p i] tw [of q j] by simp
  then show ?thesis by (simp add: show_nat_inject)
qed

lemma param_names_Cons: "param_names (obj # objs) = map fst obj @ param_names objs"
  by (simp add: param_names_def)

lemma param_names_Nil: "param_names [] = []"
  by (simp add: param_names_def)

lemma indexed_from_names:
  "indexed_from n ps \<Longrightarrow> k \<in> set (param_names ps) \<Longrightarrow>
     \<exists>j \<ge> n. endsWith k (CHR ''_'' # show_nat j)"
proof (induction ps arbitrary: n)
  case Nil
  then show ?case by (simp add: param_names_Nil)
next
  case (Cons obj objs)
  from Cons.prems(2) consider "k \<in> set (map fst obj)" | "k \<in> set (param_names objs)"
    by (auto simp: param_names_Cons)
  then show ?case
  proof cases
    case 1
    with Cons.prems(1) have "endsWith k (CHR ''_'' # show_nat n)"
      by (auto simp: list_all_iff)
    then show ?thesis by blast
  next
    case 2
    with Cons.prems(1) Cons.IH [of "Suc n"] obtain j where "Suc n \<le> j"
      "endsWith k (CHR ''_'' # show_nat j)" by auto
    then show ?thesis by (metis Suc_leD)
  qed
qed

lemma indexed_from_distinct: "indexed_from n ps \<Longrightarrow> distinct (param_names ps)"
proof (induction ps arbitrary: n)
  case Nil
  then show ?case by (simp add: param_names_Nil)
next
  case (Cons obj objs)
  have "k \<notin> set (param_names objs)" if k: "k \<in> set (map fst obj)" for k
  proof
    assume "k \<in> set (param_names objs)"
    with Cons.prems indexed_from_names [of "Suc n" objs k] obtain j where
      j: "Suc n \<le> j" "endsWith k (CHR ''_'' # show_nat j)" by auto
    from Cons.prems k have "endsWith k (CHR ''_'' # show_nat n)"
      by (auto simp: list_all_iff)
    from this j(2) have "n = j" by (rule index_suffix_inject)
    with j(1) show False by simp
  qed
  with Cons show ?case
    by (auto simp: param_names_Cons)
qed

lemma indexed_from_append:
  "indexed_from n (xs @ ys) \<longleftrightarrow> indexed_from n xs \<and> indexed_from (n + length xs) ys"
  by (induction xs arbitrary: n) auto

lemma indexed_from_nth:
  "indexed_from n ps \<Longrightarrow> i < length ps \<Longrightarrow> k \<in> set (map fst (ps ! i)) \<Longrightarrow>
     endsWith k (CHR ''_'' # show_nat (n + i))"
proof (induction ps arbitrary: n i)
  case Nil
  then show ?case by simp
next
  case (Cons obj objs)
  show ?case
  proof (cases i)
    case 0
    with Cons.prems show ?thesis by (auto simp: list_all_iff)
  next
    case (Suc i')
    with Cons.prems Cons.IH [of "Suc n" i'] show ?thesis by auto
  qed
qed

lemma extends_iff:
  "extends ps ps' \<longleftrightarrow> (\<exists>new. ps' = ps @ new \<and> indexed_from (length ps) new)"
proof
  assume e: "extends ps ps'"
  then have "ps' = ps @ drop (length ps) ps'"
    unfolding extends_def by (metis append_take_drop_id)
  with e show "\<exists>new. ps' = ps @ new \<and> indexed_from (length ps) new"
    unfolding extends_def by blast
next
  assume "\<exists>new. ps' = ps @ new \<and> indexed_from (length ps) new"
  then show "extends ps ps'" unfolding extends_def by auto
qed

lemma extends_refl: "extends ps ps"
  unfolding extends_iff by (rule exI [of _ "[]"]) simp

lemma extends_trans: "extends a b \<Longrightarrow> extends b c \<Longrightarrow> extends a c"
proof -
  assume "extends a b" "extends b c"
  then obtain n1 n2 where b: "b = a @ n1" "indexed_from (length a) n1"
    and c: "c = b @ n2" "indexed_from (length b) n2"
    unfolding extends_iff by blast
  then have "c = a @ (n1 @ n2)" "indexed_from (length a) (n1 @ n2)"
    by (simp_all add: indexed_from_append)
  then show ?thesis unfolding extends_iff by blast
qed

lemma extends_push:
  assumes "distinct (map fst obj)"
    and "list_all (\<lambda>k. endsWith k (CHR ''_'' # show_nat (length ps))) (map fst obj)"
  shows "extends ps (ps @ [obj])"
  unfolding extends_iff using assms by (intro exI [of _ "[obj]"]) simp

lemmas index_suffix = endsWith_refl endsWith_Cons endsWith_append

lemma wildcard_neq:
  "d \<noteq> CHR ''w'' # CHR ''i'' # CHR ''l'' # CHR ''d'' # CHR ''c'' # CHR ''a'' # CHR ''r''
        # CHR ''d'' # CHR ''_'' # d"
proof
  assume "d = CHR ''w'' # CHR ''i'' # CHR ''l'' # CHR ''d'' # CHR ''c'' # CHR ''a'' # CHR ''r''
        # CHR ''d'' # CHR ''_'' # d"
  then have "length d = length (CHR ''w'' # CHR ''i'' # CHR ''l'' # CHR ''d'' # CHR ''c''
        # CHR ''a'' # CHR ''r'' # CHR ''d'' # CHR ''_'' # d)"
    by (rule arg_cong)
  then show False by simp
qed

lemma escape_extends:
  assumes "distinct (map fst obj)"
    and "list_all (\<lambda>k. endsWith k (CHR ''_'' # show_nat (length (parameters s)))) (map fst obj)"
  shows "extends (parameters s) (parameters (snd (escapeQueryWithParameters q obj s)))"
  using extends_push [OF assms] by (simp add: escapeQueryWithParameters_def)

lemma serializeImplicitField_extends:
  "serializeImplicitField e s = Inr (r, s') \<Longrightarrow> extends (parameters s) (parameters s')"
  by (auto simp: serializeImplicitField_def Let_def escapeQueryWithParameters_def index_suffix
      intro!: extends_push extends_refl
      split: expression_token.splits option.splits if_splits)

lemma serialize_in_extends:
  "serialize_in uf val s = Inr (r, s') \<Longrightarrow> extends (parameters s) (parameters s')"
  by (auto simp: serialize_in_def Let_def escapeQueryWithParameters_def index_suffix
      intro!: extends_push extends_refl split: if_splits)

lemma serialize_is_extends:
  "serialize_is val s = Inr (r, s') \<Longrightarrow> extends (parameters s) (parameters s')"
  by (auto simp: serialize_is_def Let_def intro!: extends_refl split: if_splits)

lemma serialize_type_extends:
  "serialize_type val s = Inr (r, s') \<Longrightarrow> extends (parameters s) (parameters s')"
  by (auto simp: serialize_type_def Let_def escapeQueryWithParameters_def index_suffix
      intro!: extends_push)

lemma serialize_label_item_extends:
  "serialize_label_item label s = (q, s') \<Longrightarrow> extends (parameters s) (parameters s')"
  by (auto simp: serialize_label_item_def Let_def escapeQueryWithParameters_def index_suffix
      intro!: extends_push split: if_splits)

lemma serialize_label_items_extends:
  "serialize_label_items labels s = (qs, s') \<Longrightarrow> extends (parameters s) (parameters s')"
proof (induction labels arbitrary: s qs s')
  case Nil
  then show ?case by (simp add: extends_refl)
next
  case (Cons label labels)
  obtain q s1 where 1: "serialize_label_item label s = (q, s1)"
    by (cases "serialize_label_item label s")
  obtain qs' s2 where 2: "serialize_label_items labels s1 = (qs', s2)"
    by (cases "serialize_label_items labels s1")
  from Cons.prems 1 2 have "s' = s2" by simp
  with serialize_label_item_extends [OF 1] Cons.IH [OF 2] show ?case
    by (blast intro: extends_trans)
qed

lemma serialize_label_extends:
  "serialize_label val s = Inr (r, s') \<Longrightarrow> extends (parameters s) (parameters s')"
  by (auto simp: serialize_label_def Let_def split: prod.splits
      dest: serialize_label_items_extends)

lemma serialize_sort_extends:
  "serialize_sort val s = Inr (r, s') \<Longrightarrow> extends (parameters s) (parameters s')"
  by (auto simp: serialize_sort_def Let_def intro!: extends_refl
      split: option.splits sum.splits)

lemma serialize_has_extends:
  "serialize_has val s = Inr (r, s') \<Longrightarrow> extends (parameters s) (parameters s')"
  by (auto simp: serialize_has_def intro!: extends_refl split: sum.splits)

lemma serialize_no_extends:
  "serialize_no val s = Inr (r, s') \<Longrightarrow> extends (parameters s) (parameters s')"
  by (auto simp: serialize_no_def intro!: extends_refl split: sum.splits)

lemma serialize_date_extends:
  "serialize_date clk fname val s = Inr (r, s') \<Longrightarrow> extends (parameters s) (parameters s')"
  by (auto simp: serialize_date_def Let_def escapeQueryWithParameters_def index_suffix
      intro!: extends_push split: sum.splits prod.splits)

lemma serialize_term_extends:
  "serialize_term fname val s = Inr (r, s') \<Longrightarrow> extends (parameters s) (parameters s')"
  by (auto simp: serialize_term_def Let_def escapeQueryWithParameters_def index_suffix
      intro!: extends_push split: sum.splits)

lemma serialize_match_extends:
  "serialize_match fname val s = Inr (r, s') \<Longrightarrow> extends (parameters s) (parameters s')"
  by (auto simp: serialize_match_def Let_def escapeQueryWithParameters_def index_suffix
      wildcard_neq intro!: extends_push split: sum.splits)

lemma serialize_includes_extends:
  "serialize_includes val s = Inr (r, s') \<Longrightarrow> extends (parameters s) (parameters s')"
  by (auto simp: serialize_includes_def Let_def escapeQueryWithParameters_def index_suffix
      intro!: extends_push split: if_splits)

lemma serialize_recommendedby_extends:
  "serialize_recommendedby val s = Inr (r, s') \<Longrightarrow> extends (parameters s) (parameters s')"
  by (auto simp: serialize_recommendedby_def Let_def escapeQueryWithParameters_def index_suffix
      intro!: extends_push extends_refl split: if_splits)

lemma serialize_range_extends:
  "serialize_range clk fname val s = Inr (r, s') \<Longrightarrow> extends (parameters s) (parameters s')"
  by (auto simp: serialize_range_def Let_def escapeQueryWithParameters_def index_suffix
      intro!: extends_push split: sum.splits option.splits)

lemmas case_extends =
  serializeImplicitField_extends serialize_in_extends serialize_is_extends
  serialize_type_extends serialize_label_extends serialize_sort_extends
  serialize_has_extends serialize_no_extends serialize_date_extends
  serialize_term_extends serialize_match_extends serialize_includes_extends
  serialize_recommendedby_extends serialize_range_extends

lemma serializeTagExpression_extends:
  assumes "serializeTagExpression uf clk ast s = Inr (r, s')"
  shows "extends (parameters s) (parameters s')"
proof (cases ast)
  case (Tag fld e)
  show ?thesis
  proof (cases fld)
    case ImplicitField
    with Tag assms show ?thesis
      by (auto simp: serializeTagExpression_def dest: serializeImplicitField_extends)
  next
    case (Field fname)
    show ?thesis
    proof (cases e)
      case (LiteralExpression v)
      show ?thesis
      proof (cases "value_toString v")
        case None
        with Tag Field LiteralExpression assms show ?thesis
          by (auto simp: serializeTagExpression_def extends_refl)
      next
        case (Some val)
        with Tag Field LiteralExpression assms show ?thesis
          unfolding serializeTagExpression_def Let_def
          by (simp add: extends_refl split: if_splits) (erule case_extends)+
      qed
    qed (use Tag Field assms in \<open>auto simp: serializeTagExpression_def extends_refl\<close>)
  qed
qed (use assms in \<open>simp_all add: serializeTagExpression_def\<close>)

lemma serialize_extends:
  "serialize uf clk t s = Inr (r, s') \<Longrightarrow> extends (parameters s) (parameters s')"
proof (induction t arbitrary: s s' r)
  case (Tag fld e)
  then show ?case by (auto dest: serializeTagExpression_extends)
next
  case (LogicalExpression op l r')
  from LogicalExpression.prems obtain left s1 right where
    l: "serialize uf clk l s = Inr (left, s1)" and
    r: "serialize uf clk r' s1 = Inr (right, s')"
    by (auto split: if_splits sum.splits prod.splits)
  from LogicalExpression.IH(1) [OF l] LogicalExpression.IH(2) [OF r] show ?case
    by (rule extends_trans)
next
  case (UnaryOperator t)
  then show ?case by (auto split: if_splits sum.splits prod.splits)
next
  case (ParenthesizedExpression t)
  then show ?case by (auto split: if_splits sum.splits prod.splits)
next
  case EmptyQuery
  then show ?case by (simp add: extends_refl)
qed

text \<open>
  Two runs on the same tree, at any two clocks and from any two states with the same
  number of parameter objects, return the same clause and push objects with the same
  names.
\<close>

lemma same_run_refl:
  "length (parameters s) = length (parameters s') \<Longrightarrow> same_run s (r, s) s' (r, s')"
  by (simp add: same_run_def names_after_def)

lemma same_run_push:
  "length (parameters s) = length (parameters s') \<Longrightarrow> map fst obj = map fst obj' \<Longrightarrow>
     parameters s1 = parameters s @ [obj] \<Longrightarrow> parameters s1' = parameters s' @ [obj'] \<Longrightarrow>
     same_run s (r, s1) s' (r, s1')"
  by (simp add: same_run_def names_after_def)

lemma same_run_length:
  assumes "extends (parameters s) (parameters s1)" "extends (parameters s') (parameters s1')"
    and "length (parameters s) = length (parameters s')"
    and "same_run s (r, s1) s' (r', s1')"
  shows "length (parameters s1) = length (parameters s1')"
proof -
  from assms(1,2) obtain n n' where
    n: "parameters s1 = parameters s @ n" "parameters s1' = parameters s' @ n'"
    unfolding extends_iff by blast
  from assms(4) have "map (map fst) n = map (map fst) n'"
    by (simp add: same_run_def names_after_def n)
  then have "length n = length n'" by (rule map_eq_imp_length_eq)
  with n assms(3) show ?thesis by simp
qed

lemma same_run_trans:
  assumes "extends (parameters s) (parameters s1)" "extends (parameters s') (parameters s1')"
    and "extends (parameters s1) (parameters s2)" "extends (parameters s1') (parameters s2')"
    and "same_run s (r1, s1) s' (r1', s1')"
    and "same_run s1 (r2, s2) s1' (r2', s2')"
  shows "names_after (length (parameters s)) (parameters s2)
       = names_after (length (parameters s')) (parameters s2')"
proof -
  from assms(1-4) obtain n n' m m' where
    n: "parameters s1 = parameters s @ n" "parameters s1' = parameters s' @ n'"
       "parameters s2 = parameters s1 @ m" "parameters s2' = parameters s1' @ m'"
    unfolding extends_iff by blast
  from assms(5) have 1: "map (map fst) n = map (map fst) n'"
    by (simp add: same_run_def names_after_def n)
  from assms(6) have 2: "map (map fst) m = map (map fst) m'"
    by (simp add: same_run_def names_after_def n)
  show ?thesis by (simp add: names_after_def n 1 2)
qed

lemma serializeImplicitField_same:
  "serializeImplicitField e s = Inr out \<Longrightarrow> serializeImplicitField e s' = Inr out' \<Longrightarrow>
   length (parameters s) = length (parameters s') \<Longrightarrow> same_run s out s' out'"
  by (auto simp: serializeImplicitField_def Let_def escapeQueryWithParameters_def
      same_run_def names_after_def
      split: expression_token.splits option.splits if_splits)

lemma serialize_in_same:
  "serialize_in uf val s = Inr out \<Longrightarrow> serialize_in uf val s' = Inr out' \<Longrightarrow>
   length (parameters s) = length (parameters s') \<Longrightarrow> same_run s out s' out'"
  by (auto simp: serialize_in_def Let_def escapeQueryWithParameters_def
      same_run_def names_after_def split: if_splits)

lemma serialize_is_same:
  "serialize_is val s = Inr out \<Longrightarrow> serialize_is val s' = Inr out' \<Longrightarrow>
   length (parameters s) = length (parameters s') \<Longrightarrow> same_run s out s' out'"
  by (auto simp: serialize_is_def Let_def same_run_def names_after_def split: if_splits)

lemma serialize_type_same:
  "serialize_type val s = Inr out \<Longrightarrow> serialize_type val s' = Inr out' \<Longrightarrow>
   length (parameters s) = length (parameters s') \<Longrightarrow> same_run s out s' out'"
  by (auto simp: serialize_type_def Let_def escapeQueryWithParameters_def
      same_run_def names_after_def)

lemma serialize_label_item_same:
  "serialize_label_item label s = (q, s1) \<Longrightarrow> serialize_label_item label s' = (q', s1') \<Longrightarrow>
   length (parameters s) = length (parameters s') \<Longrightarrow>
   q = q' \<and> same_run s (r, s1) s' (r, s1')"
  by (auto simp: serialize_label_item_def Let_def escapeQueryWithParameters_def
      same_run_def names_after_def split: if_splits)

lemma serialize_label_items_same:
  "serialize_label_items labels s = (qs, s1) \<Longrightarrow>
   serialize_label_items labels s' = (qs', s1') \<Longrightarrow>
   length (parameters s) = length (parameters s') \<Longrightarrow>
   qs = qs' \<and> same_run s (r, s1) s' (r, s1')"
proof (induction labels arbitrary: s s' qs qs' s1 s1')
  case Nil
  then show ?case by (simp add: same_run_refl)
next
  case (Cons label labels)
  obtain q t where i1: "serialize_label_item label s = (q, t)"
    by (cases "serialize_label_item label s")
  obtain q' t' where i1': "serialize_label_item label s' = (q', t')"
    by (cases "serialize_label_item label s'")
  obtain ps u where i2: "serialize_label_items labels t = (ps, u)"
    by (cases "serialize_label_items labels t")
  obtain ps' u' where i2': "serialize_label_items labels t' = (ps', u')"
    by (cases "serialize_label_items labels t'")
  from Cons.prems(1) i1 i2 have e: "qs = q # ps" "s1 = u" by simp_all
  from Cons.prems(2) i1' i2' have e': "qs' = q' # ps'" "s1' = u'" by simp_all
  note a = serialize_label_item_same [OF i1 i1' Cons.prems(3), of r]
  note x = serialize_label_item_extends [OF i1] serialize_label_item_extends [OF i1']
  from same_run_length [OF x Cons.prems(3) a [THEN conjunct2]]
  have l: "length (parameters t) = length (parameters t')" .
  note b = Cons.IH [OF i2 i2' l]
  note y = serialize_label_items_extends [OF i2] serialize_label_items_extends [OF i2']
  from same_run_trans [OF x y a [THEN conjunct2] b [THEN conjunct2]] a b
  show ?case by (simp add: e e' same_run_def)
qed

lemma serialize_label_same:
  "serialize_label val s = Inr out \<Longrightarrow> serialize_label val s' = Inr out' \<Longrightarrow>
   length (parameters s) = length (parameters s') \<Longrightarrow> same_run s out s' out'"
  by (auto simp: serialize_label_def Let_def same_run_def split: prod.splits
      dest: serialize_label_items_same)

lemma serialize_sort_same:
  "serialize_sort val s = Inr out \<Longrightarrow> serialize_sort val s' = Inr out' \<Longrightarrow>
   length (parameters s) = length (parameters s') \<Longrightarrow> same_run s out s' out'"
  by (auto simp: serialize_sort_def Let_def same_run_def names_after_def
      split: option.splits sum.splits)

lemma serialize_has_same:
  "serialize_has val s = Inr out \<Longrightarrow> serialize_has val s' = Inr out' \<Longrightarrow>
   length (parameters s) = length (parameters s') \<Longrightarrow> same_run s out s' out'"
  by (auto simp: serialize_has_def same_run_def names_after_def split: sum.splits)

lemma serialize_no_same:
  "serialize_no val s = Inr out \<Longrightarrow> serialize_no val s' = Inr out' \<Longrightarrow>
   length (parameters s) = length (parameters s') \<Longrightarrow> same_run s out s' out'"
  by (auto simp: serialize_no_def same_run_def names_after_def split: sum.splits)

lemma serialize_date_same:
  "serialize_date clk fname val s = Inr out \<Longrightarrow> serialize_date clk' fname val s' = Inr out' \<Longrightarrow>
   length (parameters s) = length (parameters s') \<Longrightarrow> same_run s out s' out'"
  by (auto simp: serialize_date_def Let_def escapeQueryWithParameters_def
      same_run_def names_after_def split: sum.splits prod.splits)

lemma serialize_term_same:
  "serialize_term fname val s = Inr out \<Longrightarrow> serialize_term fname val s' = Inr out' \<Longrightarrow>
   length (parameters s) = length (parameters s') \<Longrightarrow> same_run s out s' out'"
  by (auto simp: serialize_term_def Let_def escapeQueryWithParameters_def
      same_run_def names_after_def split: sum.splits)

lemma serialize_match_same:
  "serialize_match fname val s = Inr out \<Longrightarrow> serialize_match fname val s' = Inr out' \<Longrightarrow>
   length (parameters s) = length (parameters s') \<Longrightarrow> same_run s out s' out'"
  by (auto simp: serialize_match_def Let_def escapeQueryWithParameters_def
      same_run_def names_after_def split: sum.splits)

lemma serialize_includes_same:
  "serialize_includes val s = Inr out \<Longrightarrow> serialize_includes val s' = Inr out' \<Longrightarrow>
   length (parameters s) = length (parameters s') \<Longrightarrow> same_run s out s' out'"
  by (auto simp: serialize_includes_def Let_def escapeQueryWithParameters_def
      same_run_def names_after_def split: if_splits)

lemma serialize_recommendedby_same:
  "serialize_recommendedby val s = Inr out \<Longrightarrow> serialize_recommendedby val s' = Inr out' \<Longrightarrow>
   length (parameters s) = length (parameters s') \<Longrightarrow> same_run s out s' out'"
  by (auto simp: serialize_recommendedby_def Let_def escapeQueryWithParameters_def
      same_run_def names_after_def split: if_splits)

lemma serialize_range_same:
  "serialize_range clk fname val s = Inr out \<Longrightarrow> serialize_range clk' fname val s' = Inr out' \<Longrightarrow>
   length (parameters s) = length (parameters s') \<Longrightarrow> same_run s out s' out'"
  by (auto simp: serialize_range_def Let_def escapeQueryWithParameters_def
      same_run_def names_after_def split: sum.splits option.splits)

lemmas case_same =
  serializeImplicitField_same serialize_in_same serialize_is_same
  serialize_type_same serialize_label_same serialize_sort_same
  serialize_has_same serialize_no_same serialize_date_same
  serialize_term_same serialize_match_same serialize_includes_same
  serialize_recommendedby_same serialize_range_same

lemma serializeTagExpression_same:
  assumes "serializeTagExpression uf clk ast s = Inr out"
    and "serializeTagExpression uf clk' ast s' = Inr out'"
    and l: "length (parameters s) = length (parameters s')"
  shows "same_run s out s' out'"
proof (cases ast)
  case (Tag fld e)
  show ?thesis
  proof (cases fld)
    case ImplicitField
    with Tag assms show ?thesis
      by (auto simp: serializeTagExpression_def dest: serializeImplicitField_same)
  next
    case (Field fname)
    show ?thesis
    proof (cases e)
      case (LiteralExpression v)
      show ?thesis
      proof (cases "value_toString v")
        case None
        with Tag Field LiteralExpression assms show ?thesis
          by (auto simp: serializeTagExpression_def same_run_refl)
      next
        case (Some val)
        show ?thesis
        proof (cases "val = []")
          case True
          with Some Tag Field LiteralExpression assms show ?thesis
            by (auto simp: serializeTagExpression_def same_run_refl)
        next
          case False
          with Some Tag Field LiteralExpression assms(1,2) show ?thesis
            unfolding serializeTagExpression_def Let_def
            by (simp split: if_splits)
              (auto simp: same_run_refl [OF l] intro: case_same [OF _ _ l])
        qed
      qed
    qed (use Tag Field assms in \<open>auto simp: serializeTagExpression_def same_run_refl\<close>)
  qed
qed (use assms in \<open>simp_all add: serializeTagExpression_def\<close>)

lemma serialize_same:
  "serialize uf clk t s = Inr out \<Longrightarrow> serialize uf clk' t s' = Inr out' \<Longrightarrow>
   length (parameters s) = length (parameters s') \<Longrightarrow> same_run s out s' out'"
proof (induction t arbitrary: s s' out out')
  case (Tag fld e)
  then show ?case by (auto dest: serializeTagExpression_same)
next
  case (LogicalExpression op l r)
  from LogicalExpression.prems(1) obtain left s1 right s2 where
    a: "serialize uf clk l s = Inr (left, s1)" "serialize uf clk r s1 = Inr (right, s2)"
    and o: "out = (if falsy left \<and> falsy right then None
                  else if falsy left then right
                  else if falsy right then left
                  else Some (the left @ '' '' @ op @ '' '' @ the right), s2)"
    by (auto split: if_splits sum.splits prod.splits)
  from LogicalExpression.prems(2) obtain left' s1' right' s2' where
    a': "serialize uf clk' l s' = Inr (left', s1')" "serialize uf clk' r s1' = Inr (right', s2')"
    and o': "out' = (if falsy left' \<and> falsy right' then None
                  else if falsy left' then right'
                  else if falsy right' then left'
                  else Some (the left' @ '' '' @ op @ '' '' @ the right'), s2')"
    by (auto split: if_splits sum.splits prod.splits)
  note x = serialize_extends [OF a(1)] serialize_extends [OF a'(1)]
  note y = serialize_extends [OF a(2)] serialize_extends [OF a'(2)]
  note p = LogicalExpression.IH(1) [OF a(1) a'(1) LogicalExpression.prems(3)]
  from same_run_length [OF x LogicalExpression.prems(3) p]
  have "length (parameters s1) = length (parameters s1')" .
  note q = LogicalExpression.IH(2) [OF a(2) a'(2) this]
  from same_run_trans [OF x y p q] p q show ?case
    by (simp add: o o' same_run_def)
next
  case (UnaryOperator t)
  from UnaryOperator.prems(1) obtain x s1 where
    a: "serialize uf clk t s = Inr (x, s1)"
    and o: "out = (if falsy x then None else Some (''NOT '' @ the x), s1)"
    by (auto split: if_splits sum.splits prod.splits)
  from UnaryOperator.prems(2) obtain x' s1' where
    a': "serialize uf clk' t s' = Inr (x', s1')"
    and o': "out' = (if falsy x' then None else Some (''NOT '' @ the x'), s1')"
    by (auto split: if_splits sum.splits prod.splits)
  from UnaryOperator.IH [OF a a' UnaryOperator.prems(3)] show ?case
    by (simp add: o o' same_run_def)
next
  case (ParenthesizedExpression t)
  from ParenthesizedExpression.prems(1) obtain x s1 where
    a: "serialize uf clk t s = Inr (x, s1)"
    and o: "out = (if falsy x then None else Some (''('' @ the x @ '')''), s1)"
    by (auto split: if_splits sum.splits prod.splits)
  from ParenthesizedExpression.prems(2) obtain x' s1' where
    a': "serialize uf clk' t s' = Inr (x', s1')"
    and o': "out' = (if falsy x' then None else Some (''('' @ the x' @ '')''), s1')"
    by (auto split: if_splits sum.splits prod.splits)
  from ParenthesizedExpression.IH [OF a a' ParenthesizedExpression.prems(3)] show ?case
    by (simp add: o o' same_run_def)
next
  case EmptyQuery
  then show ?case by (auto simp: same_run_refl)
qed

text \<open>
  C3, as stated, fails in its naming clause: the number in a name is not the count of
  parameters bound so far. For \<open>saved:today AND title:x\<close> the date tag binds the two
  names \<open>saved_start_0\<close> and \<open>saved_end_0\<close>, and the name bound next is \<open>match_title_1\<close>,
  not \<open>match_title_2\<close>: the number is \<open>parameters.length\<close>, the count of parameter objects
  pushed, and the names of one object share it.
\<close>

theorem parameter_count_counterexample:
  "serialize False clock0
     (LogicalExpression ''AND'' (Tag (Field ''saved'') (LiteralExpression (StrVal ''today'')))
        (Tag (Field ''title'') (LiteralExpression (StrVal ''x'')))) empty_state =
     Inr (Some ''library_item.saved_at BETWEEN :saved_start_0 AND :saved_end_0 AND (websearch_to_tsquery('english', :match_title_1) @@ library_item.title_tsv OR library_item.title ILIKE :match_title_wildcard_1)'',
          \<lparr>parameters = [[(''saved_start_0'', PDate 0), (''saved_end_0'', PDate 0)],
                          [(''match_title_1'', PString ''x''),
                           (''match_title_wildcard_1'', PString ''%x%'')]],
           selects = [], orders = []\<rparr>)
   \<and> param_names [[(''saved_start_0'', PDate 0), (''saved_end_0'', PDate 0)],
                   [(''match_title_1'', PString ''x''),
                    (''match_title_wildcard_1'', PString ''%x%'')]] =
       [''saved_start_0'', ''saved_end_0'', ''match_title_1'', ''match_title_wildcard_1'']"
  by (simp add: serializeTagExpression_def serialize_date_def date_range_def
      serialize_match_def getColumnName_def Let_def escapeQueryWithParameters_def
      toLowerCase_def toLowerChar_def upper_units_def lower_units_def
      show_nat.simps digit_char_def falsy_def empty_state_def clock0_def param_names_def)

text \<open>
  C3, amended: for every expression tree that compiles, the parameter objects registered
  during the call follow the ones that were there, all their names are pairwise
  distinct, and every name of the \<open>i\<close>-th new object is a prefix, an underscore and the
  decimal digits of the number of parameter objects pushed before that object (the
  names bound in one object share the number). When the call starts from no parameters,
  as in \<open>searchLibraryItems\<close> and \<open>batchUpdateLibraryItems\<close>, all names of the compiled
  query are pairwise distinct; in particular two \<open>label\<close> tags bind distinct names.
  Naming is deterministic: every other call on the same tree that compiles, at whatever
  clock and from whatever state with the same number of parameter objects, returns the
  same clause and binds the same names in the same objects.
\<close>

theorem parameter_names_distinct:
  assumes "serialize uf clk t s = Inr (r, s')"
  shows "\<exists>new. parameters s' = parameters s @ new
           \<and> distinct (param_names new)
           \<and> (\<forall>i k. i < length new \<and> k \<in> set (map fst (new ! i)) \<longrightarrow>
                (\<exists>prefix. k = prefix @ ''_'' @ show_nat (length (parameters s) + i)))
           \<and> (parameters s = [] \<longrightarrow> distinct (param_names (parameters s')))
           \<and> (\<forall>clk2 s2 r2 s2'.
                serialize uf clk2 t s2 = Inr (r2, s2')
                \<and> length (parameters s2) = length (parameters s) \<longrightarrow>
                r2 = r
                \<and> map (map fst) (drop (length (parameters s2)) (parameters s2'))
                  = map (map fst) new)"
proof -
  from serialize_extends [OF assms] obtain new where
    new: "parameters s' = parameters s @ new" "indexed_from (length (parameters s)) new"
    unfolding extends_iff by blast
  from new(2) have d: "distinct (param_names new)" by (rule indexed_from_distinct)
  have n: "\<exists>prefix. k = prefix @ ''_'' @ show_nat (length (parameters s) + i)"
    if "i < length new \<and> k \<in> set (map fst (new ! i))" for i k
    using indexed_from_nth [OF new(2), of i k] that unfolding endsWith_iff by simp
  have e: "r2 = r
      \<and> map (map fst) (drop (length (parameters s2)) (parameters s2')) = map (map fst) new"
    if "serialize uf clk2 t s2 = Inr (r2, s2')
        \<and> length (parameters s2) = length (parameters s)" for clk2 s2 r2 s2'
  proof -
    from that have a: "serialize uf clk2 t s2 = Inr (r2, s2')"
      and l: "length (parameters s2) = length (parameters s)"
      by (rule conjunct1, rule conjunct2)
    have "same_run s2 (r2, s2') s (r, s')"
      by (rule serialize_same [OF a assms l])
    then show ?thesis by (simp add: same_run_def names_after_def new(1))
  qed
  have "parameters s' = parameters s @ new
           \<and> distinct (param_names new)
           \<and> (\<forall>i k. i < length new \<and> k \<in> set (map fst (new ! i)) \<longrightarrow>
                (\<exists>prefix. k = prefix @ ''_'' @ show_nat (length (parameters s) + i)))
           \<and> (parameters s = [] \<longrightarrow> distinct (param_names (parameters s')))
           \<and> (\<forall>clk2 s2 r2 s2'.
                serialize uf clk2 t s2 = Inr (r2, s2')
                \<and> length (parameters s2) = length (parameters s) \<longrightarrow>
                r2 = r
                \<and> map (map fst) (drop (length (parameters s2)) (parameters s2'))
                  = map (map fst) new)"
  proof (intro conjI allI impI)
    show "parameters s' = parameters s @ new" by (rule new(1))
    show "distinct (param_names new)" by (rule d)
    show "\<exists>prefix. k = prefix @ ''_'' @ show_nat (length (parameters s) + i)"
      if "i < length new \<and> k \<in> set (map fst (new ! i))" for i k
      using that by (rule n)
    show "distinct (param_names (parameters s'))" if "parameters s = []"
      using that d by (simp add: new(1))
    show "r2 = r"
      if "serialize uf clk2 t s2 = Inr (r2, s2')
          \<and> length (parameters s2) = length (parameters s)" for clk2 s2 r2 s2'
      using e [OF that] by (rule conjunct1)
    show "map (map fst) (drop (length (parameters s2)) (parameters s2')) = map (map fst) new"
      if "serialize uf clk2 t s2 = Inr (r2, s2')
          \<and> length (parameters s2) = length (parameters s)" for clk2 s2 r2 s2'
      using e [OF that] by (rule conjunct2)
  qed
  then show ?thesis by (rule exI)
qed

theorem parameter_names_distinct_witness:
  "serialize False clock0
     (LogicalExpression ''AND'' (Tag (Field ''label'') (LiteralExpression (StrVal ''a,b'')))
        (Tag (Field ''label'') (LiteralExpression (StrVal ''a'')))) empty_state =
     Inr (Some ''(:label_0 = ANY(lower(array_cat(library_item.label_names, library_item.highlight_labels)::text)::text[]) OR :label_1 = ANY(lower(array_cat(library_item.label_names, library_item.highlight_labels)::text)::text[])) AND (:label_2 = ANY(lower(array_cat(library_item.label_names, library_item.highlight_labels)::text)::text[]))'',
          \<lparr>parameters = [[(''label_0'', PString ''a'')], [(''label_1'', PString ''b'')],
                          [(''label_2'', PString ''a'')]],
           selects = [], orders = []\<rparr>)
   \<and> distinct (param_names [[(''label_0'', PString ''a'')], [(''label_1'', PString ''b'')],
                          [(''label_2'', PString ''a'')]])"
proof -
  have c: "serialize False clock0
     (LogicalExpression ''AND'' (Tag (Field ''label'') (LiteralExpression (StrVal ''a,b'')))
        (Tag (Field ''label'') (LiteralExpression (StrVal ''a'')))) empty_state =
     Inr (Some ''(:label_0 = ANY(lower(array_cat(library_item.label_names, library_item.highlight_labels)::text)::text[]) OR :label_1 = ANY(lower(array_cat(library_item.label_names, library_item.highlight_labels)::text)::text[])) AND (:label_2 = ANY(lower(array_cat(library_item.label_names, library_item.highlight_labels)::text)::text[]))'',
          \<lparr>parameters = [[(''label_0'', PString ''a'')], [(''label_1'', PString ''b'')],
                          [(''label_2'', PString ''a'')]],
           selects = [], orders = []\<rparr>)"
    by (simp add: serializeTagExpression_def serialize_label_def serialize_label_item_def
        Let_def escapeQueryWithParameters_def js_split_def toLowerCase_def toLowerChar_def
        upper_units_def lower_units_def
        show_nat.simps digit_char_def falsy_def empty_state_def)
  from parameter_names_distinct [OF c]
  obtain new where
    "parameters \<lparr>parameters = [[(''label_0'', PString ''a'')], [(''label_1'', PString ''b'')],
                          [(''label_2'', PString ''a'')]],
           selects = [], orders = []\<rparr> = parameters empty_state @ new"
    "distinct (param_names new)"
    by blast
  then have "distinct (param_names [[(''label_0'', PString ''a'')], [(''label_1'', PString ''b'')],
                          [(''label_2'', PString ''a'')]])"
    by (simp add: empty_state_def)
  with c show ?thesis by (rule conjI)
qed

end
